theory Spec2Isabelle
  imports Main
begin

section \<open>The block allocator of Ejercicio.cpp\<close>

text \<open>
  The class \<open>Memoria\<close> of \<open>src/Ejercicio.cpp\<close> keeps a \<open>vector<Bloque>\<close> and the
  total size of the simulated memory. Its methods are embedded as functions that take
  the object and return the updated one. Console output is not modelled, apart from the
  one message by which \<open>cargarProceso\<close> and \<open>liberarProceso\<close> tell what they did, which
  is returned as a \<open>resultado\<close>.

  The fields \<open>inicio\<close> and \<open>tamano\<close> (the source spells it with an n-tilde) are C++
  \<open>int\<close>s. They are modelled as unbounded integers. Lemma \<open>acotado_alcanzable\<close> below
  shows that in every state reached from the constructor the capacity is the \<open>int\<close>
  the constructor stored and every block has a positive length and lies between offset
  0 and the capacity; the sums the code forms (the cursor of the compaction, the length
  of a merged block, the offset of a split remainder) add lengths of blocks of one such
  list, so they stay within the capacity and no addition of the code overflows there.
\<close>

subsection \<open>Constants and data\<close>

definition LIBRE_BLOCK_NAME :: string where
  "LIBRE_BLOCK_NAME = ''Libre''"

definition DEFAULT_TOTAL_MEMORY :: int where
  "DEFAULT_TOTAL_MEMORY = 64"

record Bloque =
  nombre :: string
  inicio :: int
  tamano :: int

record Memoria =
  bloques :: "Bloque list"
  total_memoria :: int

text \<open>
  What an operation reports. Each value stands for one message of the source:
  \<open>InvalidSize\<close> for "Error: Tamano de proceso invalido", \<open>ReservedName\<close> for
  "Error: El nombre del proceso no puede ser 'Libre'" and for "Error: No se puede liberar
  un bloque 'Libre'", \<open>Loaded\<close> for "Proceso ... cargado", \<open>InsufficientSpace\<close> for
  "No hay suficiente espacio libre contiguo ... Intenta compactar", \<open>Released\<close> for
  "Proceso ... liberado" and \<open>NotFound\<close> for "Proceso ... no encontrado".
\<close>

datatype resultado =
  InvalidSize | ReservedName | Loaded | InsufficientSpace | Released | NotFound

subsection \<open>Library functions the code calls\<close>

text \<open>
  \<open>std::find_if\<close> returns an iterator: here the index of the first element that
  satisfies the predicate, and the length of the list (the \<open>end()\<close> iterator) when
  there is none.
\<close>

fun find_if :: "('a \<Rightarrow> bool) \<Rightarrow> 'a list \<Rightarrow> nat" where
  "find_if P [] = 0"
| "find_if P (x # xs) = (if P x then 0 else Suc (find_if P xs))"

text \<open>\<open>vector::insert(it, x)\<close> puts \<open>x\<close> before the element at position \<open>it\<close>.\<close>

definition vector_insert :: "nat \<Rightarrow> 'a \<Rightarrow> 'a list \<Rightarrow> 'a list" where
  "vector_insert it x xs = take it xs @ x # drop it xs"

subsection \<open>Constructor\<close>

text \<open>Lines 31-40. The warning written to \<open>cerr\<close> is not modelled.\<close>

definition Memoria_new :: "int \<Rightarrow> Memoria" where
  "Memoria_new sz =
     (let total = (if sz \<le> 0 then DEFAULT_TOTAL_MEMORY else sz)
      in \<lparr>bloques = [\<lparr>nombre = LIBRE_BLOCK_NAME, inicio = 0, tamano = total\<rparr>],
          total_memoria = total\<rparr>)"

subsection \<open>cargarProceso (lines 70-107)\<close>

definition cargarProceso :: "string \<Rightarrow> int \<Rightarrow> Memoria \<Rightarrow> resultado \<times> Memoria" where
  "cargarProceso nom tam m =
     (if tam \<le> 0 then (InvalidSize, m)
      else if nom = LIBRE_BLOCK_NAME then (ReservedName, m)
      else
        let bs = bloques m;
            it = find_if (\<lambda>b. nombre b = LIBRE_BLOCK_NAME \<and> tamano b \<ge> tam) bs
        in if it \<noteq> length bs then
             (if tamano (bs ! it) = tam then
                (Loaded, m\<lparr>bloques := bs[it := (bs ! it)\<lparr>nombre := nom\<rparr>]\<rparr>)
              else
                let nuevo_proceso = \<lparr>nombre = nom, inicio = inicio (bs ! it), tamano = tam\<rparr>;
                    resto = (bs ! it)\<lparr>inicio := inicio (bs ! it) + tam,
                                      tamano := tamano (bs ! it) - tam\<rparr>
                in (Loaded, m\<lparr>bloques := vector_insert it nuevo_proceso (bs[it := resto])\<rparr>))
           else (InsufficientSpace, m))"

subsection \<open>compactarEspaciosLibresAdyacentes (lines 204-223)\<close>

text \<open>
  The loop over \<open>bloques[1..]\<close>: the first argument is \<open>bloques_fusionados\<close>, which is
  never empty inside the loop, and \<open>last\<close> is its \<open>back()\<close>.
\<close>

fun fusionar :: "Bloque list \<Rightarrow> Bloque list \<Rightarrow> Bloque list" where
  "fusionar bloques_fusionados [] = bloques_fusionados"
| "fusionar bloques_fusionados (actual # resto) =
     (let ultimo_fusionado = last bloques_fusionados
      in if nombre ultimo_fusionado = LIBRE_BLOCK_NAME \<and> nombre actual = LIBRE_BLOCK_NAME
         then fusionar
                (butlast bloques_fusionados @
                   [ultimo_fusionado\<lparr>tamano := tamano ultimo_fusionado + tamano actual\<rparr>])
                resto
         else fusionar (bloques_fusionados @ [actual]) resto)"

definition compactarEspaciosLibresAdyacentes :: "Memoria \<Rightarrow> Memoria" where
  "compactarEspaciosLibresAdyacentes m =
     (case bloques m of
        [] \<Rightarrow> m
      | b0 # resto \<Rightarrow> m\<lparr>bloques := fusionar [b0] resto\<rparr>)"

subsection \<open>liberarProceso (lines 109-128)\<close>

definition liberarProceso :: "string \<Rightarrow> Memoria \<Rightarrow> resultado \<times> Memoria" where
  "liberarProceso nom m =
     (if nom = LIBRE_BLOCK_NAME then (ReservedName, m)
      else
        let bs = bloques m;
            it = find_if (\<lambda>b. nombre b = nom) bs
        in if it \<noteq> length bs then
             (Released,
              compactarEspaciosLibresAdyacentes
                (m\<lparr>bloques := bs[it := (bs ! it)\<lparr>nombre := LIBRE_BLOCK_NAME\<rparr>]\<rparr>))
           else (NotFound, m))"

subsection \<open>compactarMemoriaFisica (lines 130-162)\<close>

text \<open>
  The first loop, with its three variables \<open>bloques_compactados\<close>, \<open>puntero_actual\<close>
  and \<open>espacio_libre_total\<close> as the accumulator.
\<close>

fun mover :: "Bloque list \<Rightarrow> Bloque list \<times> int \<times> int \<Rightarrow> Bloque list \<times> int \<times> int" where
  "mover [] acc = acc"
| "mover (b # bs) (bloques_compactados, puntero_actual, espacio_libre_total) =
     (if nombre b \<noteq> LIBRE_BLOCK_NAME
      then mover bs
             (bloques_compactados @
                [\<lparr>nombre = nombre b, inicio = puntero_actual, tamano = tamano b\<rparr>],
              puntero_actual + tamano b, espacio_libre_total)
      else mover bs (bloques_compactados, puntero_actual, espacio_libre_total + tamano b))"

text \<open>
  The \<open>if\<close> of line 148 has an empty body and is left out; \<open>espacio_libre_total\<close> is
  read nowhere else.
\<close>

definition compactarMemoriaFisica :: "Memoria \<Rightarrow> Memoria" where
  "compactarMemoriaFisica m =
     (case mover (bloques m) ([], 0, 0) of
        (bloques_compactados, puntero_actual, espacio_libre_total) \<Rightarrow>
          if puntero_actual < total_memoria m then
            m\<lparr>bloques := bloques_compactados @
                 [\<lparr>nombre = LIBRE_BLOCK_NAME, inicio = puntero_actual,
                   tamano = total_memoria m - puntero_actual\<rparr>]\<rparr>
          else if bloques_compactados = [] \<and> total_memoria m > 0 then
            m\<lparr>bloques := bloques_compactados @
                 [\<lparr>nombre = LIBRE_BLOCK_NAME, inicio = 0, tamano = total_memoria m\<rparr>]\<rparr>
          else m\<lparr>bloques := bloques_compactados\<rparr>)"

subsection \<open>calcularFragmentacionExterna (lines 183-200)\<close>

text \<open>
  The method prints two numbers: \<open>frag_externa\<close>, the \<open>std::accumulate\<close> of the lengths
  of the free blocks, and \<open>num_bloques_libres\<close>, the \<open>count_if\<close> of the free blocks of
  positive length. The model returns the pair.
\<close>

definition frag_externa :: "Bloque list \<Rightarrow> int" where
  "frag_externa bs =
     foldl (\<lambda>sum b. if nombre b = LIBRE_BLOCK_NAME then sum + tamano b else sum) 0 bs"

definition num_bloques_libres :: "Bloque list \<Rightarrow> nat" where
  "num_bloques_libres bs =
     length (filter (\<lambda>b. nombre b = LIBRE_BLOCK_NAME \<and> tamano b > 0) bs)"

definition calcularFragmentacionExterna :: "Memoria \<Rightarrow> int \<times> nat" where
  "calcularFragmentacionExterna m = (frag_externa (bloques m), num_bloques_libres (bloques m))"

subsection \<open>Sequences of calls\<close>

text \<open>The three mutating calls that \<open>main\<close> offers, and a run of them on one object.\<close>

datatype operacion = Cargar string int | Liberar string | Compactar

fun ejecutar1 :: "operacion \<Rightarrow> Memoria \<Rightarrow> Memoria" where
  "ejecutar1 (Cargar nom tam) m = snd (cargarProceso nom tam m)"
| "ejecutar1 (Liberar nom) m = snd (liberarProceso nom m)"
| "ejecutar1 Compactar m = compactarMemoriaFisica m"

fun ejecutar :: "operacion list \<Rightarrow> Memoria \<Rightarrow> Memoria" where
  "ejecutar [] m = m"
| "ejecutar (op # ops) m = ejecutar ops (ejecutar1 op m)"

subsection \<open>The invariants of the data model\<close>

text \<open>
  Invariant 1: consecutive blocks are in strictly increasing offset order, each one
  starting where the one before ends.
\<close>

fun inv1 :: "Bloque list \<Rightarrow> bool" where
  "inv1 [] = True"
| "inv1 [b] = True"
| "inv1 (b # c # bs) =
     (inicio b < inicio c \<and> inicio c = inicio b + tamano b \<and> inv1 (c # bs))"

text \<open>Invariant 2: the first block starts at 0 and the last one ends at the capacity.\<close>

definition inv2 :: "int \<Rightarrow> Bloque list \<Rightarrow> bool" where
  "inv2 cap bs =
     (bs \<noteq> [] \<and> inicio (hd bs) = 0 \<and> inicio (last bs) + tamano (last bs) = cap)"

text \<open>Invariant 3: no two adjacent blocks are both free.\<close>

fun inv3 :: "Bloque list \<Rightarrow> bool" where
  "inv3 [] = True"
| "inv3 [b] = True"
| "inv3 (b # c # bs) =
     (\<not> (nombre b = LIBRE_BLOCK_NAME \<and> nombre c = LIBRE_BLOCK_NAME) \<and> inv3 (c # bs))"

text \<open>Invariant 4: no name other than the free one labels two blocks.\<close>

definition inv4 :: "Bloque list \<Rightarrow> bool" where
  "inv4 bs = distinct (filter (\<lambda>n. n \<noteq> LIBRE_BLOCK_NAME) (map nombre bs))"

text \<open>Invariant 5: every block has a positive length.\<close>

definition inv5 :: "Bloque list \<Rightarrow> bool" where
  "inv5 bs = list_all (\<lambda>b. 0 < tamano b) bs"

definition inv1235 :: "Memoria \<Rightarrow> bool" where
  "inv1235 m =
     (inv1 (bloques m) \<and> inv2 (total_memoria m) (bloques m) \<and> inv3 (bloques m) \<and>
      inv5 (bloques m))"

text \<open>
  A run in which no \<open>cargarProceso\<close> is called with a name that labels a block at the
  moment of the call.
\<close>

fun sin_repetir :: "operacion list \<Rightarrow> Memoria \<Rightarrow> bool" where
  "sin_repetir [] m = True"
| "sin_repetir (Cargar nom tam # ops) m =
     (nom \<notin> set (map nombre (bloques m)) \<and> sin_repetir ops (ejecutar1 (Cargar nom tam) m))"
| "sin_repetir (op # ops) m = sin_repetir ops (ejecutar1 op m)"

subsection \<open>Auxiliary notions for the proofs\<close>

text \<open>
  \<open>cadena off bs\<close>: the blocks of \<open>bs\<close> follow one another without gap from offset
  \<open>off\<close>. \<open>suma bs\<close> is the sum of their lengths.
\<close>

fun cadena :: "int \<Rightarrow> Bloque list \<Rightarrow> bool" where
  "cadena off [] = True"
| "cadena off (b # bs) = (inicio b = off \<and> cadena (off + tamano b) bs)"

definition suma :: "Bloque list \<Rightarrow> int" where
  "suma bs = sum_list (map tamano bs)"

definition ocupado :: "Bloque \<Rightarrow> bool" where
  "ocupado b = (nombre b \<noteq> LIBRE_BLOCK_NAME)"

text \<open>What the first loop of \<open>compactarMemoriaFisica\<close> builds when its cursor starts at \<open>p\<close>.\<close>

definition colocados :: "int \<Rightarrow> Bloque list \<Rightarrow> Bloque list" where
  "colocados p bs = fst (mover bs ([], p, 0))"

text \<open>The form in which the invariants 1, 2, 3 and 5 are carried through the proofs.\<close>

definition bien_formada :: "Memoria \<Rightarrow> bool" where
  "bien_formada m =
     (0 < total_memoria m \<and> cadena 0 (bloques m) \<and> suma (bloques m) = total_memoria m \<and>
      inv3 (bloques m) \<and> inv5 (bloques m))"

section \<open>Auxiliary lemmas\<close>

subsection \<open>find_if\<close>

lemma find_if_split:
  "\<forall>x\<in>set pre. \<not> P x \<Longrightarrow> P b \<Longrightarrow> find_if P (pre @ b # post) = length pre"
  by (induction pre) auto

lemma find_if_end: "(find_if P xs = length xs) = (\<forall>x\<in>set xs. \<not> P x)"
  by (induction xs) auto

lemma find_if_found:
  "find_if P xs \<noteq> length xs \<Longrightarrow>
   \<exists>pre b post. xs = pre @ b # post \<and> (\<forall>x\<in>set pre. \<not> P x) \<and> P b"
  unfolding find_if_end using split_list_first_prop [of xs P] by auto

subsection \<open>cargarProceso on a list split at the chosen block\<close>

lemma cargar_split:
  assumes "0 < tam" "nom \<noteq> LIBRE_BLOCK_NAME"
    and "bloques m = pre @ b # post"
    and "\<forall>x\<in>set pre. \<not> (nombre x = LIBRE_BLOCK_NAME \<and> tam \<le> tamano x)"
    and "nombre b = LIBRE_BLOCK_NAME" "tam \<le> tamano b"
  shows "cargarProceso nom tam m =
    (Loaded, m\<lparr>bloques :=
       (if tamano b = tam then pre @ b\<lparr>nombre := nom\<rparr> # post
        else pre @ \<lparr>nombre = nom, inicio = inicio b, tamano = tam\<rparr> #
               b\<lparr>inicio := inicio b + tam, tamano := tamano b - tam\<rparr> # post)\<rparr>)"
proof -
  let ?P = "\<lambda>x. nombre x = LIBRE_BLOCK_NAME \<and> tam \<le> tamano x"
  have it: "find_if ?P (pre @ b # post) = length pre"
    using assms(4-6) by (simp add: find_if_split)
  show ?thesis
    using assms(1,2) by (simp add: cargarProceso_def it assms(3) vector_insert_def Let_def)
qed

lemma cargar_error:
  "cargarProceso nom tam m = (r, m') \<Longrightarrow> r \<noteq> Loaded \<Longrightarrow> m' = m"
  by (auto simp: cargarProceso_def Let_def split: if_splits)

subsection \<open>The merging loop\<close>

lemma fusionar_append:
  "fusionar (pre @ [u]) rest = pre @ fusionar [u] rest"
proof (induction rest arbitrary: pre u)
  case Nil
  then show ?case by simp
next
  case (Cons a rest)
  show ?case
  proof (cases "nombre u = LIBRE_BLOCK_NAME \<and> nombre a = LIBRE_BLOCK_NAME")
    case True
    then show ?thesis using Cons.IH [of pre] Cons.IH [of "[]"] by simp
  next
    case False
    have "fusionar (pre @ [u]) (a # rest) = fusionar ((pre @ [u]) @ [a]) rest"
      using False by auto
    also have "\<dots> = (pre @ [u]) @ fusionar [a] rest" by (rule Cons.IH)
    finally have l: "fusionar (pre @ [u]) (a # rest) = pre @ u # fusionar [a] rest" by simp
    have "fusionar [u] (a # rest) = fusionar ([u] @ [a]) rest"
      using False by auto
    also have "\<dots> = [u] @ fusionar [a] rest" by (rule Cons.IH)
    finally show ?thesis using l by simp
  qed
qed

lemma fusionar_Cons:
  "fusionar [u] (a # rest) =
     (if nombre u = LIBRE_BLOCK_NAME \<and> nombre a = LIBRE_BLOCK_NAME
      then fusionar [u\<lparr>tamano := tamano u + tamano a\<rparr>] rest
      else u # fusionar [a] rest)"
  using fusionar_append [of "[u]" a rest] by simp

declare fusionar.simps(2) [simp del]

lemma fusionar_hd:
  "\<exists>t ys. fusionar [u] rest = u\<lparr>tamano := t\<rparr> # ys"
proof (induction rest arbitrary: u)
  case Nil
  have "fusionar [u] [] = u\<lparr>tamano := tamano u\<rparr> # []" by simp
  then show ?case by blast
next
  case (Cons a rest)
  show ?case
  proof (cases "nombre u = LIBRE_BLOCK_NAME \<and> nombre a = LIBRE_BLOCK_NAME")
    case True
    obtain t ys where "fusionar [u\<lparr>tamano := tamano u + tamano a\<rparr>] rest =
        u\<lparr>tamano := tamano u + tamano a\<rparr>\<lparr>tamano := t\<rparr> # ys"
      using Cons.IH by blast
    then have "fusionar [u] (a # rest) = u\<lparr>tamano := t\<rparr> # ys"
      using True by (simp add: fusionar_Cons)
    then show ?thesis by blast
  next
    case False
    then have "fusionar [u] (a # rest) = u\<lparr>tamano := tamano u\<rparr> # fusionar [a] rest"
      by (auto simp: fusionar_Cons)
    then show ?thesis by blast
  qed
qed

lemma inv3_Cons: "inv3 (b # bs) =
   ((bs = [] \<or> \<not> (nombre b = LIBRE_BLOCK_NAME \<and> nombre (hd bs) = LIBRE_BLOCK_NAME)) \<and> inv3 bs)"
  by (cases bs) auto

lemma inv3_fusionar: "inv3 (fusionar [u] rest)"
proof (induction rest arbitrary: u)
  case Nil
  then show ?case by simp
next
  case (Cons a rest)
  show ?case
  proof (cases "nombre u = LIBRE_BLOCK_NAME \<and> nombre a = LIBRE_BLOCK_NAME")
    case True
    then show ?thesis using Cons.IH by (simp add: fusionar_Cons)
  next
    case False
    obtain t ys where h: "fusionar [a] rest = a\<lparr>tamano := t\<rparr> # ys"
      using fusionar_hd by blast
    have "inv3 (fusionar [a] rest)" by (rule Cons.IH)
    then show ?thesis using False h by (auto simp: fusionar_Cons inv3_Cons)
  qed
qed

subsection \<open>Chains, sums and the merging loop\<close>

lemma cadena_append: "cadena off (xs @ ys) = (cadena off xs \<and> cadena (off + suma xs) ys)"
  by (induction xs arbitrary: off) (auto simp: suma_def add.assoc)

lemma suma_append: "suma (xs @ ys) = suma xs + suma ys"
  by (simp add: suma_def)

lemma suma_Cons: "suma (b # bs) = tamano b + suma bs"
  by (simp add: suma_def)

lemma inv5_append: "inv5 (xs @ ys) = (inv5 xs \<and> inv5 ys)"
  by (simp add: inv5_def)

lemma inv5_Cons: "inv5 (b # bs) = (0 < tamano b \<and> inv5 bs)"
  by (simp add: inv5_def)

lemma inv3_append:
  "inv3 (xs @ b # ys) = (inv3 (xs @ [b]) \<and> inv3 (b # ys))"
  by (induction xs rule: inv3.induct) (auto simp: inv3_Cons)

lemma inv3_snoc:
  "inv3 (xs @ [b]) =
     (inv3 xs \<and> (xs = [] \<or> \<not> (nombre (last xs) = LIBRE_BLOCK_NAME \<and> nombre b = LIBRE_BLOCK_NAME)))"
  by (induction xs rule: inv3.induct) (auto simp: inv3_Cons)

lemma cadena_fusionar_aux:
  "cadena (inicio u + tamano u) rest \<Longrightarrow> cadena (inicio u) (fusionar [u] rest)"
proof (induction rest arbitrary: u)
  case Nil
  then show ?case by simp
next
  case (Cons a rest)
  from Cons.prems have a: "inicio a = inicio u + tamano u"
    and r: "cadena (inicio a + tamano a) rest" by simp_all
  show ?case
  proof (cases "nombre u = LIBRE_BLOCK_NAME \<and> nombre a = LIBRE_BLOCK_NAME")
    case True
    let ?u = "u\<lparr>tamano := tamano u + tamano a\<rparr>"
    have "cadena (inicio ?u + tamano ?u) rest" using a r by (simp add: add.assoc)
    then have "cadena (inicio ?u) (fusionar [?u] rest)" by (rule Cons.IH)
    then show ?thesis using True by (simp add: fusionar_Cons)
  next
    case False
    have "cadena (inicio a) (fusionar [a] rest)" using r by (rule Cons.IH)
    then show ?thesis using False a by (auto simp: fusionar_Cons)
  qed
qed

lemma cadena_fusionar:
  "cadena off (u # rest) \<Longrightarrow> cadena off (fusionar [u] rest)"
  using cadena_fusionar_aux [of u rest] by auto

lemma suma_fusionar: "suma (fusionar [u] rest) = suma (u # rest)"
  by (induction rest arbitrary: u) (auto simp: fusionar_Cons suma_Cons)

lemma inv5_fusionar: "inv5 (u # rest) \<Longrightarrow> inv5 (fusionar [u] rest)"
  by (induction rest arbitrary: u) (auto simp: fusionar_Cons inv5_Cons)

lemma filter_fusionar:
  "filter ocupado (fusionar [u] rest) = filter ocupado (u # rest)"
  by (induction rest arbitrary: u) (auto simp: fusionar_Cons ocupado_def)

lemma fusionar_inv3: "inv3 (u # rest) \<Longrightarrow> fusionar [u] rest = u # rest"
  by (induction rest arbitrary: u) (auto simp: fusionar_Cons inv3_Cons)

lemma frag_externa_foldl:
  "foldl (\<lambda>sum b. if nombre b = LIBRE_BLOCK_NAME then sum + tamano b else sum) a bs =
   a + suma (filter (\<lambda>b. \<not> ocupado b) bs)"
  by (induction bs arbitrary: a) (auto simp: suma_def ocupado_def)

lemma frag_externa_suma: "frag_externa bs = suma (filter (\<lambda>b. \<not> ocupado b) bs)"
  by (simp add: frag_externa_def frag_externa_foldl)

subsection \<open>cargarProceso and liberarProceso keep the state well formed\<close>

lemma liberar_split:
  assumes "nom \<noteq> LIBRE_BLOCK_NAME"
    and "bloques m = pre @ b # post"
    and "\<forall>x\<in>set pre. nombre x \<noteq> nom"
    and "nombre b = nom"
  shows "liberarProceso nom m =
    (Released,
     compactarEspaciosLibresAdyacentes
       (m\<lparr>bloques := pre @ b\<lparr>nombre := LIBRE_BLOCK_NAME\<rparr> # post\<rparr>))"
proof -
  have it: "find_if (\<lambda>x. nombre x = nom) (pre @ b # post) = length pre"
    using assms(3,4) by (simp add: find_if_split)
  show ?thesis
    using assms(1) by (simp add: liberarProceso_def it assms(2) Let_def)
qed

lemma liberar_error:
  "liberarProceso nom m = (r, m') \<Longrightarrow> r \<noteq> Released \<Longrightarrow> m' = m"
  by (auto simp: liberarProceso_def Let_def split: if_splits)

lemma compactarEspacios_bloques:
  "bloques (compactarEspaciosLibresAdyacentes m) =
     (case bloques m of [] \<Rightarrow> [] | b0 # resto \<Rightarrow> fusionar [b0] resto)"
  by (simp add: compactarEspaciosLibresAdyacentes_def split: list.splits)

lemma compactarEspacios_total:
  "total_memoria (compactarEspaciosLibresAdyacentes m) = total_memoria m"
  by (simp add: compactarEspaciosLibresAdyacentes_def split: list.splits)

lemma compactarEspacios_bien_formada:
  assumes "0 < total_memoria m" "cadena 0 (bloques m)" "suma (bloques m) = total_memoria m"
    "inv5 (bloques m)"
  shows "bien_formada (compactarEspaciosLibresAdyacentes m)"
proof (cases "bloques m")
  case Nil
  then show ?thesis using assms by (simp add: suma_def)
next
  case (Cons b0 resto)
  then show ?thesis using assms
    by (simp add: bien_formada_def compactarEspacios_bloques compactarEspacios_total
        cadena_fusionar suma_fusionar inv5_fusionar inv3_fusionar del: cadena.simps)
qed

lemma cargar_bien_formada:
  assumes "bien_formada m"
  shows "bien_formada (snd (cargarProceso nom tam m))"
proof (cases "fst (cargarProceso nom tam m) = Loaded")
  case False
  then have "snd (cargarProceso nom tam m) = m"
    using cargar_error [of nom tam m] by (cases "cargarProceso nom tam m") auto
  then show ?thesis using assms by simp
next
  case True
  let ?P = "\<lambda>x. nombre x = LIBRE_BLOCK_NAME \<and> tam \<le> tamano x"
  from True have pos: "0 < tam" and nl: "nom \<noteq> LIBRE_BLOCK_NAME"
    and f: "find_if ?P (bloques m) \<noteq> length (bloques m)"
    by (auto simp: cargarProceso_def Let_def split: if_splits)
  from find_if_found [OF f] obtain pre b post where
    bs: "bloques m = pre @ b # post" and pre: "\<forall>x\<in>set pre. \<not> ?P x" and b: "?P b"
    by blast
  have res: "snd (cargarProceso nom tam m) = m\<lparr>bloques :=
       (if tamano b = tam then pre @ b\<lparr>nombre := nom\<rparr> # post
        else pre @ \<lparr>nombre = nom, inicio = inicio b, tamano = tam\<rparr> #
               b\<lparr>inicio := inicio b + tam, tamano := tamano b - tam\<rparr> # post)\<rparr>"
    using cargar_split [OF pos nl bs pre] b by simp
  from assms bs have c: "cadena 0 (pre @ b # post)" and s: "suma (pre @ b # post) = total_memoria m"
    and i3: "inv3 (pre @ b # post)" and i5: "inv5 (pre @ b # post)" and t: "0 < total_memoria m"
    by (simp_all add: bien_formada_def)
  show ?thesis
  proof (cases "tamano b = tam")
    case True
    have "inv3 (pre @ b\<lparr>nombre := nom\<rparr> # post)"
      using i3 nl by (simp add: inv3_append [of pre _ post] inv3_snoc inv3_Cons)
    then show ?thesis using True c s i5 t
      by (simp add: res bien_formada_def cadena_append suma_append suma_Cons inv5_append inv5_Cons)
  next
    case False
    let ?n = "\<lparr>nombre = nom, inicio = inicio b, tamano = tam\<rparr>"
    let ?r = "b\<lparr>inicio := inicio b + tam, tamano := tamano b - tam\<rparr>"
    have lt: "tam < tamano b" using False b by simp
    have "inv3 (pre @ [?n])" using i3 nl by (simp add: inv3_append [of pre _ post] inv3_snoc)
    moreover have "inv3 (?r # post)" using i3 by (simp add: inv3_append [of pre _ post] inv3_Cons)
    ultimately have "inv3 (pre @ ?n # ?r # post)"
      using nl by (simp add: inv3_append [of pre ?n "?r # post"] inv3_Cons)
    then show ?thesis using False c s i5 t lt pos
      by (simp add: res bien_formada_def cadena_append suma_append suma_Cons inv5_append inv5_Cons)
  qed
qed

lemma liberar_bien_formada:
  assumes "bien_formada m"
  shows "bien_formada (snd (liberarProceso nom m))"
proof (cases "fst (liberarProceso nom m) = Released")
  case False
  then have "snd (liberarProceso nom m) = m"
    using liberar_error [of nom m] by (cases "liberarProceso nom m") auto
  then show ?thesis using assms by simp
next
  case True
  let ?P = "\<lambda>x. nombre x = nom"
  from True have nl: "nom \<noteq> LIBRE_BLOCK_NAME"
    and f: "find_if ?P (bloques m) \<noteq> length (bloques m)"
    by (auto simp: liberarProceso_def Let_def split: if_splits)
  from find_if_found [OF f] obtain pre b post where
    bs: "bloques m = pre @ b # post" and pre: "\<forall>x\<in>set pre. \<not> ?P x" and b: "?P b"
    by blast
  let ?m = "m\<lparr>bloques := pre @ b\<lparr>nombre := LIBRE_BLOCK_NAME\<rparr> # post\<rparr>"
  have res: "snd (liberarProceso nom m) = compactarEspaciosLibresAdyacentes ?m"
    using liberar_split [OF nl bs] pre b by simp
  from assms bs have "0 < total_memoria ?m" "cadena 0 (bloques ?m)"
    "suma (bloques ?m) = total_memoria ?m" "inv5 (bloques ?m)"
    by (simp_all add: bien_formada_def cadena_append suma_append suma_Cons inv5_append inv5_Cons)
  then show ?thesis unfolding res by (rule compactarEspacios_bien_formada)
qed

subsection \<open>The placing loop of compactarMemoriaFisica\<close>

lemma mover_fst:
  "fst (mover bs (c, p, l)) = c @ fst (mover bs ([], p, l'))"
proof (induction bs arbitrary: c p l l')
  case Nil
  then show ?case by simp
next
  case (Cons b bs)
  show ?case
  proof (cases "nombre b \<noteq> LIBRE_BLOCK_NAME")
    case True
    let ?n = "\<lparr>nombre = nombre b, inicio = p, tamano = tamano b\<rparr>"
    have "fst (mover (b # bs) (c, p, l)) = fst (mover bs (c @ [?n], p + tamano b, l))"
      using True by simp
    also have "\<dots> = (c @ [?n]) @ fst (mover bs ([], p + tamano b, l'))"
      by (rule Cons.IH)
    finally have 1: "fst (mover (b # bs) (c, p, l)) =
        c @ ?n # fst (mover bs ([], p + tamano b, l'))" by simp
    have "fst (mover (b # bs) ([], p, l')) = fst (mover bs ([] @ [?n], p + tamano b, l'))"
      using True by simp
    also have "\<dots> = ([] @ [?n]) @ fst (mover bs ([], p + tamano b, l'))"
      by (rule Cons.IH)
    finally show ?thesis using 1 by simp
  next
    case False
    have "fst (mover (b # bs) (c, p, l)) = fst (mover bs (c, p, l + tamano b))"
      using False by simp
    also have "\<dots> = c @ fst (mover bs ([], p, l' + tamano b))"
      by (rule Cons.IH)
    finally show ?thesis using False by simp
  qed
qed

lemma mover_snd:
  "snd (mover bs (c, p, l)) =
     (p + suma (filter ocupado bs), l + suma (filter (\<lambda>b. \<not> ocupado b) bs))"
  by (induction bs arbitrary: c p l) (simp_all add: ocupado_def suma_def)

lemma mover_eq:
  "mover bs (c, p, l) =
     (c @ colocados p bs, p + suma (filter ocupado bs), l + suma (filter (\<lambda>b. \<not> ocupado b) bs))"
  using mover_fst [of bs c p l 0] mover_snd [of bs c p l]
  by (cases "mover bs (c, p, l)") (simp add: colocados_def)

lemma colocados_Nil: "colocados p [] = []"
  by (simp add: colocados_def)

lemma colocados_Cons:
  "colocados p (b # bs) =
     (if ocupado b
      then \<lparr>nombre = nombre b, inicio = p, tamano = tamano b\<rparr> # colocados (p + tamano b) bs
      else colocados p bs)"
proof -
  have "colocados p (b # bs) = fst (mover (b # bs) ([], p, 0))" by (simp add: colocados_def)
  also have "\<dots> = (if ocupado b
      then fst (mover bs ([\<lparr>nombre = nombre b, inicio = p, tamano = tamano b\<rparr>], p + tamano b, 0))
      else fst (mover bs ([], p, 0 + tamano b)))"
    by (simp add: ocupado_def)
  also have "\<dots> = (if ocupado b
      then \<lparr>nombre = nombre b, inicio = p, tamano = tamano b\<rparr> # colocados (p + tamano b) bs
      else colocados p bs)"
    by (simp add: mover_eq)
  finally show ?thesis .
qed

lemma compactar_bloques:
  "bloques (compactarMemoriaFisica m) =
     (let cs = colocados 0 (bloques m); p = suma (filter ocupado (bloques m))
      in if p < total_memoria m
         then cs @ [\<lparr>nombre = LIBRE_BLOCK_NAME, inicio = p, tamano = total_memoria m - p\<rparr>]
         else if cs = [] \<and> total_memoria m > 0
         then [\<lparr>nombre = LIBRE_BLOCK_NAME, inicio = 0, tamano = total_memoria m\<rparr>]
         else cs)"
  by (simp add: compactarMemoriaFisica_def mover_eq Let_def)

lemma compactar_total: "total_memoria (compactarMemoriaFisica m) = total_memoria m"
  by (simp add: compactarMemoriaFisica_def mover_eq)

lemma cadena_colocados: "cadena p (colocados p bs)"
  by (induction bs arbitrary: p) (simp_all add: colocados_Nil colocados_Cons)

lemma suma_colocados: "suma (colocados p bs) = suma (filter ocupado bs)"
  by (induction bs arbitrary: p) (simp_all add: colocados_Nil colocados_Cons suma_Cons)

lemma nombres_colocados: "map nombre (colocados p bs) = map nombre (filter ocupado bs)"
  by (induction bs arbitrary: p) (simp_all add: colocados_Nil colocados_Cons)

lemma ocupados_colocados: "list_all ocupado (colocados p bs)"
  by (induction bs arbitrary: p) (simp_all add: colocados_Nil colocados_Cons ocupado_def)

lemma inv5_colocados: "inv5 bs \<Longrightarrow> inv5 (colocados p bs)"
  by (induction bs arbitrary: p) (simp_all add: colocados_Nil colocados_Cons inv5_Cons)

lemma colocados_fijo: "list_all ocupado xs \<Longrightarrow> cadena p xs \<Longrightarrow> colocados p xs = xs"
  by (induction xs arbitrary: p) (auto simp: colocados_Nil colocados_Cons)

lemma colocados_append:
  "colocados p (xs @ ys) = colocados p xs @ colocados (p + suma (filter ocupado xs)) ys"
  by (induction xs arbitrary: p) (simp_all add: colocados_Nil colocados_Cons suma_Cons suma_def add.assoc)

lemma inv3_ocupados: "list_all ocupado xs \<Longrightarrow> inv3 xs"
  by (induction xs rule: inv3.induct) (simp_all add: ocupado_def)

lemma filter_ocupados: "list_all ocupado xs \<Longrightarrow> filter ocupado xs = xs"
  by (induction xs) simp_all

lemma suma_particion: "suma bs = suma (filter ocupado bs) + suma (filter (\<lambda>b. \<not> ocupado b) bs)"
  by (induction bs) (simp_all add: suma_Cons suma_def)

lemma suma_no_negativa: "inv5 bs \<Longrightarrow> 0 \<le> suma (filter P bs)"
  by (induction bs) (simp_all add: suma_Cons inv5_Cons suma_def)

subsection \<open>Every reachable state is well formed\<close>

lemma compactar_bien_formada:
  assumes "bien_formada m"
  shows "bien_formada (compactarMemoriaFisica m)"
proof -
  let ?bs = "bloques m" and ?T = "total_memoria m"
  let ?p = "suma (filter ocupado ?bs)"
  let ?cs = "colocados 0 ?bs"
  from assms have T: "0 < ?T" and s: "suma ?bs = ?T" and i5: "inv5 ?bs"
    by (simp_all add: bien_formada_def)
  have "0 \<le> suma (filter (\<lambda>b. \<not> ocupado b) ?bs)" using i5 by (rule suma_no_negativa)
  then have le: "?p \<le> ?T" using s suma_particion [of ?bs] by simp
  have c: "cadena 0 ?cs" by (rule cadena_colocados)
  have sc: "suma ?cs = ?p" by (rule suma_colocados)
  have oc: "list_all ocupado ?cs" by (rule ocupados_colocados)
  have i3: "inv3 ?cs" using oc by (rule inv3_ocupados)
  have i5c: "inv5 ?cs" using i5 by (rule inv5_colocados)
  show ?thesis
  proof (cases "?p < ?T")
    case True
    let ?f = "\<lparr>nombre = LIBRE_BLOCK_NAME, inicio = ?p, tamano = ?T - ?p\<rparr>"
    have b: "bloques (compactarMemoriaFisica m) = ?cs @ [?f]"
      using True by (simp add: compactar_bloques Let_def)
    have "?cs \<noteq> [] \<Longrightarrow> ocupado (last ?cs)"
      using oc by (simp add: list_all_iff)
    then have "inv3 (?cs @ [?f])" using i3 by (auto simp: inv3_snoc ocupado_def)
    then show ?thesis using True T c sc i5c
      by (simp add: bien_formada_def b compactar_total cadena_append suma_append suma_Cons
          inv5_append inv5_Cons suma_def [of "[]"] inv5_def [of "[]"])
  next
    case False
    then have eq: "?p = ?T" using le by simp
    then have "?cs \<noteq> []" using T sc by (auto simp: suma_def)
    then have b: "bloques (compactarMemoriaFisica m) = ?cs"
      using False by (simp add: compactar_bloques Let_def)
    show ?thesis using T c sc i3 i5c eq
      by (simp add: bien_formada_def b compactar_total)
  qed
qed

lemma Memoria_new_bien_formada: "bien_formada (Memoria_new sz)"
  by (simp add: bien_formada_def Memoria_new_def Let_def suma_def inv5_def DEFAULT_TOTAL_MEMORY_def)

lemma ejecutar1_bien_formada: "bien_formada m \<Longrightarrow> bien_formada (ejecutar1 op m)"
  by (cases op) (simp_all add: cargar_bien_formada liberar_bien_formada compactar_bien_formada)

lemma ejecutar_bien_formada: "bien_formada m \<Longrightarrow> bien_formada (ejecutar ops m)"
  by (induction ops arbitrary: m) (simp_all add: ejecutar1_bien_formada)

lemma alcanzable_bien_formada: "bien_formada (ejecutar ops (Memoria_new sz))"
  by (simp add: ejecutar_bien_formada Memoria_new_bien_formada)

lemma cadena_inv1:
  "inv5 bs \<Longrightarrow> cadena off bs \<Longrightarrow> inv1 bs"
  by (induction bs arbitrary: off rule: inv1.induct) (auto simp: inv5_Cons)

lemma cadena_last:
  "bs \<noteq> [] \<Longrightarrow> cadena off bs \<Longrightarrow> inicio (last bs) + tamano (last bs) = off + suma bs"
  by (induction bs arbitrary: off) (auto simp: suma_Cons suma_def)

lemma bien_formada_inv1235: "bien_formada m \<Longrightarrow> inv1235 m"
proof -
  assume a: "bien_formada m"
  then have ne: "bloques m \<noteq> []" by (auto simp: bien_formada_def suma_def)
  then have "inicio (hd (bloques m)) = 0" using a
    by (cases "bloques m") (simp_all add: bien_formada_def)
  moreover have "inicio (last (bloques m)) + tamano (last (bloques m)) = total_memoria m"
    using a cadena_last [OF ne, of 0] by (simp add: bien_formada_def)
  moreover have "inv1 (bloques m)"
    using a cadena_inv1 [of "bloques m" 0] by (simp add: bien_formada_def)
  ultimately show ?thesis using a ne by (simp add: inv1235_def inv2_def bien_formada_def)
qed

lemma inv1_cadena:
  "bs \<noteq> [] \<Longrightarrow> inv1 bs \<Longrightarrow> cadena (inicio (hd bs)) bs"
  by (induction bs rule: inv1.induct) auto

lemma inv1235_bien_formada: "0 < total_memoria m \<Longrightarrow> inv1235 m \<Longrightarrow> bien_formada m"
proof -
  assume T: "0 < total_memoria m" and a: "inv1235 m"
  then have ne: "bloques m \<noteq> []" by (simp add: inv1235_def inv2_def)
  have c: "cadena 0 (bloques m)" using inv1_cadena [OF ne] a by (simp add: inv1235_def inv2_def)
  have "suma (bloques m) = total_memoria m"
    using cadena_last [OF ne c] a by (simp add: inv1235_def inv2_def)
  then show ?thesis using T a c by (simp add: inv1235_def bien_formada_def)
qed

subsection \<open>Names of occupied blocks\<close>

lemma inv4_ocupados: "inv4 bs = distinct (map nombre (filter ocupado bs))"
proof -
  have "filter (\<lambda>n. n \<noteq> LIBRE_BLOCK_NAME) (map nombre bs) = map nombre (filter ocupado bs)"
    by (induction bs) (simp_all add: ocupado_def)
  then show ?thesis by (simp add: inv4_def)
qed

lemma cargar_inv4:
  assumes "inv4 (bloques m)" "nom \<notin> set (map nombre (bloques m))"
  shows "inv4 (bloques (snd (cargarProceso nom tam m)))"
proof (cases "fst (cargarProceso nom tam m) = Loaded")
  case False
  then have "snd (cargarProceso nom tam m) = m"
    using cargar_error [of nom tam m] by (cases "cargarProceso nom tam m") auto
  then show ?thesis using assms by simp
next
  case True
  let ?P = "\<lambda>x. nombre x = LIBRE_BLOCK_NAME \<and> tam \<le> tamano x"
  from True have pos: "0 < tam" and nl: "nom \<noteq> LIBRE_BLOCK_NAME"
    and f: "find_if ?P (bloques m) \<noteq> length (bloques m)"
    by (auto simp: cargarProceso_def Let_def split: if_splits)
  from find_if_found [OF f] obtain pre b post where
    bs: "bloques m = pre @ b # post" and pre: "\<forall>x\<in>set pre. \<not> ?P x" and b: "?P b"
    by blast
  have res: "snd (cargarProceso nom tam m) = m\<lparr>bloques :=
       (if tamano b = tam then pre @ b\<lparr>nombre := nom\<rparr> # post
        else pre @ \<lparr>nombre = nom, inicio = inicio b, tamano = tam\<rparr> #
               b\<lparr>inicio := inicio b + tam, tamano := tamano b - tam\<rparr> # post)\<rparr>"
    using cargar_split [OF pos nl bs pre] b by simp
  have "nom \<notin> nombre ` set pre" "nom \<notin> nombre ` set post"
    using assms(2) bs by auto
  then have "nom \<notin> nombre ` set (filter ocupado pre)" "nom \<notin> nombre ` set (filter ocupado post)"
    by auto
  then show ?thesis using assms(1) b nl
    by (simp add: res bs inv4_ocupados ocupado_def [of b] ocupado_def [of "b\<lparr>nombre := nom\<rparr>"]
        ocupado_def [of "\<lparr>nombre = nom, inicio = inicio b, tamano = tam\<rparr>"]
        ocupado_def [of "b\<lparr>inicio := inicio b + tam, tamano := tamano b - tam\<rparr>"])
qed

lemma liberar_ocupados:
  assumes "nom \<noteq> LIBRE_BLOCK_NAME"
    and "bloques m = pre @ b # post" and "\<forall>x\<in>set pre. nombre x \<noteq> nom" and "nombre b = nom"
  shows "filter ocupado (bloques (snd (liberarProceso nom m))) =
         filter ocupado pre @ filter ocupado post"
proof -
  let ?l = "b\<lparr>nombre := LIBRE_BLOCK_NAME\<rparr>"
  have "filter ocupado (bloques (snd (liberarProceso nom m))) = filter ocupado (pre @ ?l # post)"
    using liberar_split [OF assms]
    by (cases "pre @ ?l # post") (simp_all add: compactarEspacios_bloques filter_fusionar)
  then show ?thesis by (simp add: ocupado_def [of ?l])
qed

lemma liberar_inv4:
  assumes "inv4 (bloques m)"
  shows "inv4 (bloques (snd (liberarProceso nom m)))"
proof (cases "fst (liberarProceso nom m) = Released")
  case False
  then have "snd (liberarProceso nom m) = m"
    using liberar_error [of nom m] by (cases "liberarProceso nom m") auto
  then show ?thesis using assms by simp
next
  case True
  let ?P = "\<lambda>x. nombre x = nom"
  from True have nl: "nom \<noteq> LIBRE_BLOCK_NAME"
    and f: "find_if ?P (bloques m) \<noteq> length (bloques m)"
    by (auto simp: liberarProceso_def Let_def split: if_splits)
  from find_if_found [OF f] obtain pre b post where
    bs: "bloques m = pre @ b # post" and pre: "\<forall>x\<in>set pre. \<not> ?P x" and b: "?P b"
    by blast
  have "filter ocupado (bloques (snd (liberarProceso nom m))) =
         filter ocupado pre @ filter ocupado post"
    using liberar_ocupados [OF nl bs] pre b by simp
  then show ?thesis using assms by (auto simp: inv4_ocupados bs split: if_splits)
qed

lemma compactar_ocupados:
  "filter ocupado (bloques (compactarMemoriaFisica m)) = colocados 0 (bloques m)"
  using ocupados_colocados [of 0 "bloques m"]
  by (simp add: compactar_bloques Let_def filter_ocupados ocupado_def
      [of "\<lparr>nombre = LIBRE_BLOCK_NAME, inicio = _, tamano = _\<rparr>"])

lemma compactar_inv4: "inv4 (bloques m) \<Longrightarrow> inv4 (bloques (compactarMemoriaFisica m))"
  by (simp add: inv4_ocupados compactar_ocupados nombres_colocados)

lemma ejecutar_inv4:
  "inv4 (bloques m) \<Longrightarrow> sin_repetir ops m \<Longrightarrow> inv4 (bloques (ejecutar ops m))"
proof (induction ops arbitrary: m)
  case Nil
  then show ?case by simp
next
  case (Cons op ops)
  show ?case
  proof (cases op)
    case (Cargar nom tam)
    then show ?thesis using Cons by (simp add: cargar_inv4)
  next
    case (Liberar nom)
    then show ?thesis using Cons by (simp add: liberar_inv4)
  next
    case Compactar
    then show ?thesis using Cons by (simp add: compactar_inv4)
  qed
qed

lemma Memoria_new_inv4: "inv4 (bloques (Memoria_new sz))"
  by (simp add: inv4_def Memoria_new_def Let_def)

subsection \<open>Offsets under invariant 1\<close>

lemma inv1_ordenado: "inv1 bs \<Longrightarrow> sorted_wrt (\<lambda>x y. inicio x < inicio y) bs"
proof (induction bs rule: inv1.induct)
  case (3 b c bs)
  then have s: "sorted_wrt (\<lambda>x y. inicio x < inicio y) (c # bs)" and lt: "inicio b < inicio c"
    by simp_all
  then have "\<forall>y\<in>set bs. inicio b < inicio y" by fastforce
  then show ?case using s lt by simp
qed simp_all

lemma inv1_antes:
  "inv1 (pre @ b # post) \<Longrightarrow> (\<forall>x\<in>set pre. inicio x < inicio b) \<and> (\<forall>x\<in>set post. inicio b < inicio x)"
  by (drule inv1_ordenado) (auto simp: sorted_wrt_append)

subsection \<open>liberarProceso on a name that is present\<close>

lemma compactarEspacios_inv3: "inv3 (bloques (compactarEspaciosLibresAdyacentes m))"
  by (cases "bloques m") (simp_all add: compactarEspacios_bloques inv3_fusionar)

lemma liberar_inv3:
  "fst (liberarProceso nom m) = Released \<Longrightarrow> inv3 (bloques (snd (liberarProceso nom m)))"
  by (auto simp: liberarProceso_def Let_def compactarEspacios_inv3 split: if_splits)

lemma liberar_encontrado:
  "nom \<noteq> LIBRE_BLOCK_NAME \<Longrightarrow> nom \<in> set (map nombre (bloques m)) \<Longrightarrow>
   fst (liberarProceso nom m) = Released"
proof -
  assume nl: "nom \<noteq> LIBRE_BLOCK_NAME" and "nom \<in> set (map nombre (bloques m))"
  then have "\<not> (\<forall>x\<in>set (bloques m). \<not> nombre x = nom)" by auto
  then have "find_if (\<lambda>b. nombre b = nom) (bloques m) \<noteq> length (bloques m)"
    by (simp add: find_if_end)
  then show ?thesis using nl by (simp add: liberarProceso_def Let_def)
qed

subsection \<open>The result of compactarMemoriaFisica\<close>

lemma compactar_forma:
  "bloques (compactarMemoriaFisica m) =
     colocados 0 (bloques m) @
     (if suma (filter ocupado (bloques m)) < total_memoria m
      then [\<lparr>nombre = LIBRE_BLOCK_NAME, inicio = suma (filter ocupado (bloques m)),
             tamano = total_memoria m - suma (filter ocupado (bloques m))\<rparr>]
      else if colocados 0 (bloques m) = [] \<and> total_memoria m > 0
      then [\<lparr>nombre = LIBRE_BLOCK_NAME, inicio = 0, tamano = total_memoria m\<rparr>]
      else [])"
  by (simp add: compactar_bloques Let_def)

lemma colocados_vacio: "(colocados p bs = []) = (filter ocupado bs = [])"
  using nombres_colocados [of p bs] by (metis map_is_Nil_conv)

lemma compactar_forma_positiva:
  assumes "0 < total_memoria m"
  shows "bloques (compactarMemoriaFisica m) =
     colocados 0 (bloques m) @
     (if suma (filter ocupado (bloques m)) < total_memoria m
      then [\<lparr>nombre = LIBRE_BLOCK_NAME, inicio = suma (filter ocupado (bloques m)),
             tamano = total_memoria m - suma (filter ocupado (bloques m))\<rparr>]
      else [])"
proof -
  have "suma (filter ocupado (bloques m)) < total_memoria m" if "colocados 0 (bloques m) = []"
    using that assms by (simp add: colocados_vacio suma_def)
  then show ?thesis by (auto simp: compactar_forma)
qed

lemma no_libres: "list_all ocupado cs \<Longrightarrow> filter (\<lambda>b. nombre b = LIBRE_BLOCK_NAME \<and> Q b) cs = []"
  by (induction cs) (simp_all add: ocupado_def)

lemma libres_tras_compactar:
  "length (filter (\<lambda>b. nombre b = LIBRE_BLOCK_NAME \<and> Q b) (bloques (compactarMemoriaFisica m))) \<le> 1"
  using ocupados_colocados [of 0 "bloques m"]
  by (simp add: compactar_forma no_libres)

lemma butlast_tras_compactar:
  "list_all ocupado (butlast (bloques (compactarMemoriaFisica m)))"
  using ocupados_colocados [of 0 "bloques m"]
  by (auto simp: compactar_forma butlast_append list_all_iff dest: in_set_butlastD)

lemma colocados_libre:
  "nombre f = LIBRE_BLOCK_NAME \<Longrightarrow> colocados p (xs @ [f]) = colocados p xs"
  by (simp add: colocados_append colocados_Cons colocados_Nil ocupado_def)

lemma colocados_idem: "colocados 0 (bloques (compactarMemoriaFisica m)) = colocados 0 (bloques m)"
proof -
  have "colocados 0 (colocados 0 (bloques m)) = colocados 0 (bloques m)"
    using ocupados_colocados cadena_colocados by (rule colocados_fijo)
  then show ?thesis
    by (simp add: compactar_forma colocados_libre colocados_Cons colocados_Nil ocupado_def)
qed

lemma suma_ocupados_idem:
  "suma (filter ocupado (bloques (compactarMemoriaFisica m))) = suma (filter ocupado (bloques m))"
  by (simp add: compactar_ocupados suma_colocados)

lemma compactar_record: "compactarMemoriaFisica m = m\<lparr>bloques := bloques (compactarMemoriaFisica m)\<rparr>"
  by (simp add: compactarMemoriaFisica_def split: prod.splits)

lemma compactar_idem: "compactarMemoriaFisica (compactarMemoriaFisica m) = compactarMemoriaFisica m"
proof -
  let ?m' = "compactarMemoriaFisica m"
  have "bloques (compactarMemoriaFisica ?m') = bloques ?m'"
    by (simp add: compactar_bloques [of ?m'] colocados_idem suma_ocupados_idem compactar_total
        Let_def)
       (simp add: compactar_bloques Let_def)
  then have "compactarMemoriaFisica ?m' = ?m'\<lparr>bloques := bloques ?m'\<rparr>"
    using compactar_record [of ?m'] by simp
  then show ?thesis by simp
qed

lemma pares_colocados:
  "map (\<lambda>b. (nombre b, tamano b)) (colocados p bs) =
   map (\<lambda>b. (nombre b, tamano b)) (filter ocupado bs)"
  by (induction bs arbitrary: p) (simp_all add: colocados_Nil colocados_Cons)

lemma frag_externa_compactar:
  assumes "bien_formada m"
  shows "frag_externa (bloques (compactarMemoriaFisica m)) = frag_externa (bloques m)"
proof -
  let ?bs = "bloques m" and ?T = "total_memoria m"
  let ?p = "suma (filter ocupado ?bs)"
  from assms have T: "0 < ?T" and s: "suma ?bs = ?T" and i5: "inv5 ?bs"
    by (simp_all add: bien_formada_def)
  have "0 \<le> suma (filter (\<lambda>b. \<not> ocupado b) ?bs)" using i5 by (rule suma_no_negativa)
  then have le: "?p \<le> ?T" using s suma_particion [of ?bs] by simp
  have antes: "frag_externa ?bs = ?T - ?p"
    using s suma_particion [of ?bs] by (simp add: frag_externa_suma)
  have "filter (\<lambda>b. \<not> ocupado b) (colocados 0 ?bs) = []"
    using ocupados_colocados [of 0 ?bs] by (simp add: list_all_iff)
  then have "frag_externa (bloques (compactarMemoriaFisica m)) = ?T - ?p"
    using le T
    by (simp add: frag_externa_suma compactar_forma_positiva ocupado_def
        [of "\<lparr>nombre = LIBRE_BLOCK_NAME, inicio = _, tamano = _\<rparr>"] suma_def)
  then show ?thesis using antes by simp
qed

subsection \<open>A load followed by the release of the same name\<close>

lemma fusionar_prefijo:
  "inv3 (u # pre) \<Longrightarrow> nombre (last (u # pre)) \<noteq> LIBRE_BLOCK_NAME \<Longrightarrow>
   fusionar [u] (pre @ x # xs) = (u # pre) @ fusionar [x] xs"
proof (induction pre arbitrary: u)
  case Nil
  then show ?case by (simp add: fusionar_Cons)
next
  case (Cons a pre)
  from Cons.prems have nn: "\<not> (nombre u = LIBRE_BLOCK_NAME \<and> nombre a = LIBRE_BLOCK_NAME)"
    and i: "inv3 (a # pre)" and l: "nombre (last (a # pre)) \<noteq> LIBRE_BLOCK_NAME"
    by simp_all
  have "fusionar [u] ((a # pre) @ x # xs) = u # fusionar [a] (pre @ x # xs)"
    using nn by (auto simp: fusionar_Cons)
  also have "fusionar [a] (pre @ x # xs) = (a # pre) @ fusionar [x] xs"
    using i l by (rule Cons.IH)
  finally show ?case by simp
qed

text \<open>The merging pass on a list whose part before \<open>x\<close> needs no merging.\<close>

lemma compactarEspacios_prefijo:
  assumes "inv3 (pre @ [x'])" "nombre x' = LIBRE_BLOCK_NAME"
  shows "bloques (compactarEspaciosLibresAdyacentes (m\<lparr>bloques := pre @ x # xs\<rparr>)) =
         pre @ fusionar [x] xs"
proof (cases pre)
  case Nil
  then show ?thesis by (simp add: compactarEspacios_bloques)
next
  case (Cons u pre')
  from assms(1) have "inv3 pre \<and>
      (pre = [] \<or> \<not> (nombre (last pre) = LIBRE_BLOCK_NAME \<and> nombre x' = LIBRE_BLOCK_NAME))"
    by (simp only: inv3_snoc)
  then have "inv3 (u # pre')" and "nombre (last (u # pre')) \<noteq> LIBRE_BLOCK_NAME"
    using assms(2) Cons by simp_all
  then have "fusionar [u] (pre' @ x # xs) = (u # pre') @ fusionar [x] xs"
    by (rule fusionar_prefijo)
  then show ?thesis using Cons by (simp add: compactarEspacios_bloques)
qed

lemma compactarEspacios_record:
  "compactarEspaciosLibresAdyacentes m =
   m\<lparr>bloques := bloques (compactarEspaciosLibresAdyacentes m)\<rparr>"
  by (simp add: compactarEspaciosLibresAdyacentes_def split: list.splits)

lemma cargar_liberar:
  assumes i3: "inv3 (bloques m)"
    and nuevo: "nom \<notin> set (map nombre (bloques m))"
    and ok: "fst (cargarProceso nom tam m) = Loaded"
  shows "liberarProceso nom (snd (cargarProceso nom tam m)) = (Released, m)"
proof -
  let ?P = "\<lambda>x. nombre x = LIBRE_BLOCK_NAME \<and> tam \<le> tamano x"
  from ok have pos: "0 < tam" and nl: "nom \<noteq> LIBRE_BLOCK_NAME"
    and f: "find_if ?P (bloques m) \<noteq> length (bloques m)"
    by (auto simp: cargarProceso_def Let_def split: if_splits)
  from find_if_found [OF f] obtain pre b post where
    bs: "bloques m = pre @ b # post" and pre: "\<forall>x\<in>set pre. \<not> ?P x" and b: "?P b"
    by blast
  from b have bl: "nombre b = LIBRE_BLOCK_NAME" and bt: "tam \<le> tamano b" by simp_all
  have pn: "\<forall>x\<in>set pre. nombre x \<noteq> nom" using nuevo bs by auto
  have ipre: "inv3 (pre @ [b])" and ipost: "inv3 (b # post)"
    using i3 bs by (simp_all add: inv3_append [of pre b post])
  let ?m' = "snd (cargarProceso nom tam m)"
  let ?n = "\<lparr>nombre = nom, inicio = inicio b, tamano = tam\<rparr>"
  let ?r = "b\<lparr>inicio := inicio b + tam, tamano := tamano b - tam\<rparr>"
  have res: "?m' = m\<lparr>bloques :=
       (if tamano b = tam then pre @ b\<lparr>nombre := nom\<rparr> # post else pre @ ?n # ?r # post)\<rparr>"
    using cargar_split [OF pos nl bs pre bl bt] by simp
  have fin: "bloques (snd (liberarProceso nom ?m')) = bloques m \<and>
             fst (liberarProceso nom ?m') = Released"
  proof (cases "tamano b = tam")
    case True
    then have b': "bloques ?m' = pre @ b\<lparr>nombre := nom\<rparr> # post" by (simp add: res)
    have "liberarProceso nom ?m' =
      (Released, compactarEspaciosLibresAdyacentes
         (?m'\<lparr>bloques := pre @ b\<lparr>nombre := nom\<rparr>\<lparr>nombre := LIBRE_BLOCK_NAME\<rparr> # post\<rparr>))"
      using nl b' pn by (intro liberar_split) simp_all
    moreover have "b\<lparr>nombre := nom\<rparr>\<lparr>nombre := LIBRE_BLOCK_NAME\<rparr> = b" using bl by simp
    moreover have "bloques (compactarEspaciosLibresAdyacentes (?m'\<lparr>bloques := pre @ b # post\<rparr>)) =
        pre @ fusionar [b] post"
      using ipre bl by (rule compactarEspacios_prefijo)
    ultimately show ?thesis using ipost by (simp add: fusionar_inv3 bs)
  next
    case False
    then have b': "bloques ?m' = pre @ ?n # ?r # post" by (simp add: res)
    let ?l = "\<lparr>nombre = LIBRE_BLOCK_NAME, inicio = inicio b, tamano = tam\<rparr>"
    have "liberarProceso nom ?m' =
      (Released, compactarEspaciosLibresAdyacentes
         (?m'\<lparr>bloques := pre @ ?n\<lparr>nombre := LIBRE_BLOCK_NAME\<rparr> # ?r # post\<rparr>))"
      using nl b' pn by (intro liberar_split) simp_all
    moreover have "?n\<lparr>nombre := LIBRE_BLOCK_NAME\<rparr> = ?l" by simp
    moreover have "bloques (compactarEspaciosLibresAdyacentes (?m'\<lparr>bloques := pre @ ?l # ?r # post\<rparr>)) =
        pre @ fusionar [?l] (?r # post)"
      using ipre bl by (rule compactarEspacios_prefijo)
    moreover have "fusionar [?l] (?r # post) = fusionar [b] post"
    proof -
      have eq: "\<lparr>nombre = LIBRE_BLOCK_NAME, inicio = inicio b, tamano = tamano b\<rparr> = b"
        using bl by (cases b) simp
      have "fusionar [?l] (?r # post) =
          fusionar [\<lparr>nombre = LIBRE_BLOCK_NAME, inicio = inicio b, tamano = tamano b\<rparr>] post"
        using bl by (simp add: fusionar_Cons)
      then show ?thesis by (simp only: eq)
    qed
    ultimately show ?thesis using ipost by (simp add: fusionar_inv3 bs)
  qed
  have "\<exists>bs'. ?m' = m\<lparr>bloques := bs'\<rparr>" using res by blast
  then have "\<exists>bs'. snd (liberarProceso nom ?m') = m\<lparr>bloques := bs'\<rparr>"
    using compactarEspacios_record
    by (auto simp: liberarProceso_def Let_def compactarEspaciosLibresAdyacentes_def split: list.splits)
  then obtain bs' where "snd (liberarProceso nom ?m') = m\<lparr>bloques := bs'\<rparr>" by blast
  then have "snd (liberarProceso nom ?m') = m" using fin by (cases m) auto
  then show ?thesis using fin by (cases "liberarProceso nom ?m'") simp
qed

subsection \<open>Loading a name that is already in use\<close>

lemma inv1_Cons: "inv1 (b # bs) =
   ((bs = [] \<or> (inicio b < inicio (hd bs) \<and> inicio (hd bs) = inicio b + tamano b)) \<and> inv1 bs)"
  by (cases bs) auto

lemma inv1_append:
  "inv1 (xs @ b # ys) = (inv1 (xs @ [b]) \<and> inv1 (b # ys))"
  by (induction xs rule: inv1.induct) (auto simp: inv1_Cons)

lemma inv1_snoc:
  "inv1 (xs @ [b]) =
     (inv1 xs \<and> (xs = [] \<or> (inicio (last xs) < inicio b \<and>
        inicio b = inicio (last xs) + tamano (last xs))))"
  by (induction xs rule: inv1.induct) (auto simp: inv1_Cons)

lemma cargar_inv1:
  assumes "inv1 (bloques m)"
  shows "inv1 (bloques (snd (cargarProceso nom tam m)))"
proof (cases "fst (cargarProceso nom tam m) = Loaded")
  case False
  then have "snd (cargarProceso nom tam m) = m"
    using cargar_error [of nom tam m] by (cases "cargarProceso nom tam m") auto
  then show ?thesis using assms by simp
next
  case True
  let ?P = "\<lambda>x. nombre x = LIBRE_BLOCK_NAME \<and> tam \<le> tamano x"
  from True have pos: "0 < tam" and nl: "nom \<noteq> LIBRE_BLOCK_NAME"
    and f: "find_if ?P (bloques m) \<noteq> length (bloques m)"
    by (auto simp: cargarProceso_def Let_def split: if_splits)
  from find_if_found [OF f] obtain pre b post where
    bs: "bloques m = pre @ b # post" and pre: "\<forall>x\<in>set pre. \<not> ?P x" and b: "?P b"
    by blast
  let ?n = "\<lparr>nombre = nom, inicio = inicio b, tamano = tam\<rparr>"
  let ?r = "b\<lparr>inicio := inicio b + tam, tamano := tamano b - tam\<rparr>"
  have res: "snd (cargarProceso nom tam m) = m\<lparr>bloques :=
       (if tamano b = tam then pre @ b\<lparr>nombre := nom\<rparr> # post else pre @ ?n # ?r # post)\<rparr>"
    using cargar_split [OF pos nl bs pre] b by simp
  from assms bs have ipre: "inv1 (pre @ [b])" and ipost: "inv1 (b # post)"
    by (simp_all add: inv1_append [of pre b post])
  show ?thesis
  proof (cases "tamano b = tam")
    case True
    have "inv1 (pre @ [b\<lparr>nombre := nom\<rparr>])" using ipre by (simp add: inv1_snoc)
    moreover have "inv1 (b\<lparr>nombre := nom\<rparr> # post)" using ipost by (simp add: inv1_Cons)
    ultimately show ?thesis
      using True by (simp add: res inv1_append [of pre "b\<lparr>nombre := nom\<rparr>" post])
  next
    case False
    then have lt: "tam < tamano b" using b by simp
    have "inv1 (pre @ [?n])" using ipre by (simp add: inv1_snoc)
    moreover have "inv1 (?n # ?r # post)" using ipost lt pos by (auto simp: inv1_Cons)
    ultimately show ?thesis
      using False by (simp add: res inv1_append [of pre ?n "?r # post"])
  qed
qed

lemma cargar_cuenta:
  assumes "fst (cargarProceso nom tam m) = Loaded"
  shows "length (filter (\<lambda>b. nombre b = nom) (bloques (snd (cargarProceso nom tam m)))) =
         Suc (length (filter (\<lambda>b. nombre b = nom) (bloques m)))"
proof -
  let ?P = "\<lambda>x. nombre x = LIBRE_BLOCK_NAME \<and> tam \<le> tamano x"
  from assms have pos: "0 < tam" and nl: "nom \<noteq> LIBRE_BLOCK_NAME"
    and f: "find_if ?P (bloques m) \<noteq> length (bloques m)"
    by (auto simp: cargarProceso_def Let_def split: if_splits)
  from find_if_found [OF f] obtain pre b post where
    bs: "bloques m = pre @ b # post" and pre: "\<forall>x\<in>set pre. \<not> ?P x" and b: "?P b"
    by blast
  have "snd (cargarProceso nom tam m) = m\<lparr>bloques :=
       (if tamano b = tam then pre @ b\<lparr>nombre := nom\<rparr> # post
        else pre @ \<lparr>nombre = nom, inicio = inicio b, tamano = tam\<rparr> #
               b\<lparr>inicio := inicio b + tam, tamano := tamano b - tam\<rparr> # post)\<rparr>"
    using cargar_split [OF pos nl bs pre] b by simp
  then show ?thesis using b nl by (auto simp: bs)
qed

lemma cargar_cargado:
  assumes "0 < tam" "nom \<noteq> LIBRE_BLOCK_NAME"
    and "\<exists>b\<in>set (bloques m). nombre b = LIBRE_BLOCK_NAME \<and> tam \<le> tamano b"
  shows "fst (cargarProceso nom tam m) = Loaded"
proof -
  have "find_if (\<lambda>b. nombre b = LIBRE_BLOCK_NAME \<and> tam \<le> tamano b) (bloques m) \<noteq>
        length (bloques m)"
    using assms(3) by (simp add: find_if_end)
  then show ?thesis using assms(1,2) by (simp add: cargarProceso_def Let_def)
qed

subsection \<open>Bounds in reachable states\<close>

lemma cadena_cotas:
  "cadena off bs \<Longrightarrow> inv5 bs \<Longrightarrow> b \<in> set bs \<Longrightarrow>
   off \<le> inicio b \<and> inicio b + tamano b \<le> off + suma bs"
proof (induction bs arbitrary: off)
  case Nil
  then show ?case by simp
next
  case (Cons a bs)
  from Cons.prems have a: "inicio a = off" "0 < tamano a" and c: "cadena (off + tamano a) bs"
    and i: "inv5 bs" by (simp_all add: inv5_Cons)
  have nn: "0 \<le> suma bs" using suma_no_negativa [OF i, of "\<lambda>_. True"] by simp
  show ?case
  proof (cases "b = a")
    case True
    then show ?thesis using a nn by (simp add: suma_Cons)
  next
    case False
    then have "b \<in> set bs" using Cons.prems by simp
    from Cons.IH [OF c i this] show ?thesis using a by (simp add: suma_Cons)
  qed
qed

lemma ejecutar1_total: "total_memoria (ejecutar1 op m) = total_memoria m"
proof (cases op)
  case (Cargar nom tam)
  then show ?thesis by (simp add: cargarProceso_def Let_def)
next
  case (Liberar nom)
  then show ?thesis by (simp add: liberarProceso_def Let_def compactarEspacios_total)
next
  case Compactar
  then show ?thesis by (simp add: compactar_total)
qed

lemma ejecutar_total: "total_memoria (ejecutar ops m) = total_memoria m"
  by (induction ops arbitrary: m) (simp_all add: ejecutar1_total)

text \<open>
  In every state reached from the constructor the capacity is the one the constructor
  set, and every block lies inside \<open>[0, total_memoria]\<close> with a positive length.
\<close>

lemma acotado_alcanzable:
  assumes "m = ejecutar ops (Memoria_new sz)" and "b \<in> set (bloques m)"
  shows "total_memoria m = (if sz \<le> 0 then DEFAULT_TOTAL_MEMORY else sz) \<and>
         0 \<le> inicio b \<and> 0 < tamano b \<and> inicio b + tamano b \<le> total_memoria m"
proof -
  have w: "bien_formada m" unfolding assms(1) by (rule alcanzable_bien_formada)
  then have c: "cadena 0 (bloques m)" and i: "inv5 (bloques m)"
    and s: "suma (bloques m) = total_memoria m"
    by (simp_all add: bien_formada_def)
  have "0 < tamano b" using i assms(2) by (simp add: inv5_def list_all_iff)
  moreover have "total_memoria m = (if sz \<le> 0 then DEFAULT_TOTAL_MEMORY else sz)"
    unfolding assms(1) by (simp add: ejecutar_total Memoria_new_def Let_def)
  ultimately show ?thesis using cadena_cotas [OF c i assms(2)] s by simp
qed

subsection \<open>The invariants in indexed form\<close>

text \<open>The invariants 1 and 3 in the indexed form in which the specification words them.\<close>

lemma inv1_indices:
  "inv1 bs = (\<forall>i. Suc i < length bs \<longrightarrow>
      inicio (bs ! i) < inicio (bs ! Suc i) \<and>
      inicio (bs ! Suc i) = inicio (bs ! i) + tamano (bs ! i))"
proof (induction bs rule: inv1.induct)
  case (3 b c bs)
  show ?case
  proof
    assume a: "inv1 (b # c # bs)"
    show "\<forall>i. Suc i < length (b # c # bs) \<longrightarrow>
      inicio ((b # c # bs) ! i) < inicio ((b # c # bs) ! Suc i) \<and>
      inicio ((b # c # bs) ! Suc i) = inicio ((b # c # bs) ! i) + tamano ((b # c # bs) ! i)"
    proof (intro allI impI)
      fix i assume "Suc i < length (b # c # bs)"
      then show "inicio ((b # c # bs) ! i) < inicio ((b # c # bs) ! Suc i) \<and>
        inicio ((b # c # bs) ! Suc i) = inicio ((b # c # bs) ! i) + tamano ((b # c # bs) ! i)"
      proof (cases i)
        case 0
        then show ?thesis using a by simp
      next
        case (Suc k)
        from a have "inv1 (c # bs)" by simp
        with 3 have r: "\<forall>i. Suc i < length (c # bs) \<longrightarrow>
            inicio ((c # bs) ! i) < inicio ((c # bs) ! Suc i) \<and>
            inicio ((c # bs) ! Suc i) = inicio ((c # bs) ! i) + tamano ((c # bs) ! i)"
          by blast
        from r [rule_format, of k] show ?thesis
          using Suc \<open>Suc i < length (b # c # bs)\<close> by simp
      qed
    qed
  next
    assume a: "\<forall>i. Suc i < length (b # c # bs) \<longrightarrow>
      inicio ((b # c # bs) ! i) < inicio ((b # c # bs) ! Suc i) \<and>
      inicio ((b # c # bs) ! Suc i) = inicio ((b # c # bs) ! i) + tamano ((b # c # bs) ! i)"
    from a [rule_format, of 0] have h: "inicio b < inicio c \<and> inicio c = inicio b + tamano b"
      by simp
    have "\<forall>i. Suc i < length (c # bs) \<longrightarrow>
      inicio ((c # bs) ! i) < inicio ((c # bs) ! Suc i) \<and>
      inicio ((c # bs) ! Suc i) = inicio ((c # bs) ! i) + tamano ((c # bs) ! i)"
    proof (intro allI impI)
      fix i assume "Suc i < length (c # bs)"
      then show "inicio ((c # bs) ! i) < inicio ((c # bs) ! Suc i) \<and>
        inicio ((c # bs) ! Suc i) = inicio ((c # bs) ! i) + tamano ((c # bs) ! i)"
        using a [rule_format, of "Suc i"] by simp
    qed
    with 3 have "inv1 (c # bs)" by blast
    then show "inv1 (b # c # bs)" using h by simp
  qed
qed simp_all

lemma inv3_indices:
  "inv3 bs = (\<forall>i. Suc i < length bs \<longrightarrow>
      \<not> (nombre (bs ! i) = LIBRE_BLOCK_NAME \<and> nombre (bs ! Suc i) = LIBRE_BLOCK_NAME))"
proof (induction bs rule: inv3.induct)
  case (3 b c bs)
  show ?case
  proof
    assume a: "inv3 (b # c # bs)"
    show "\<forall>i. Suc i < length (b # c # bs) \<longrightarrow>
      \<not> (nombre ((b # c # bs) ! i) = LIBRE_BLOCK_NAME \<and>
         nombre ((b # c # bs) ! Suc i) = LIBRE_BLOCK_NAME)"
    proof (intro allI impI)
      fix i assume "Suc i < length (b # c # bs)"
      then show "\<not> (nombre ((b # c # bs) ! i) = LIBRE_BLOCK_NAME \<and>
         nombre ((b # c # bs) ! Suc i) = LIBRE_BLOCK_NAME)"
      proof (cases i)
        case 0
        then show ?thesis using a by simp
      next
        case (Suc k)
        from a have "inv3 (c # bs)" by simp
        with 3 show ?thesis using Suc \<open>Suc i < length (b # c # bs)\<close> by simp
      qed
    qed
  next
    assume a: "\<forall>i. Suc i < length (b # c # bs) \<longrightarrow>
      \<not> (nombre ((b # c # bs) ! i) = LIBRE_BLOCK_NAME \<and>
         nombre ((b # c # bs) ! Suc i) = LIBRE_BLOCK_NAME)"
    from a [rule_format, of 0]
    have h: "\<not> (nombre b = LIBRE_BLOCK_NAME \<and> nombre c = LIBRE_BLOCK_NAME)" by simp
    have "\<forall>i. Suc i < length (c # bs) \<longrightarrow>
      \<not> (nombre ((c # bs) ! i) = LIBRE_BLOCK_NAME \<and> nombre ((c # bs) ! Suc i) = LIBRE_BLOCK_NAME)"
    proof (intro allI impI)
      fix i assume "Suc i < length (c # bs)"
      then show "\<not> (nombre ((c # bs) ! i) = LIBRE_BLOCK_NAME \<and>
        nombre ((c # bs) ! Suc i) = LIBRE_BLOCK_NAME)"
        using a [rule_format, of "Suc i"] by simp
    qed
    with 3 have "inv3 (c # bs)" by blast
    then show "inv3 (b # c # bs)" using h by simp
  qed
qed simp_all

lemma inv4_indices:
  "inv4 bs = (\<forall>i j. i < j \<and> j < length bs \<and> nombre (bs ! i) \<noteq> LIBRE_BLOCK_NAME \<longrightarrow>
      nombre (bs ! i) \<noteq> nombre (bs ! j))"
proof (induction bs)
  case Nil
  then show ?case by (simp add: inv4_def)
next
  case (Cons b bs)
  have step: "inv4 (b # bs) =
      ((nombre b \<noteq> LIBRE_BLOCK_NAME \<longrightarrow> nombre b \<notin> nombre ` set bs) \<and> inv4 bs)"
    by (auto simp: inv4_def)
  show ?case
  proof
    assume a: "inv4 (b # bs)"
    show "\<forall>i j. i < j \<and> j < length (b # bs) \<and> nombre ((b # bs) ! i) \<noteq> LIBRE_BLOCK_NAME \<longrightarrow>
      nombre ((b # bs) ! i) \<noteq> nombre ((b # bs) ! j)"
    proof (intro allI impI)
      fix i j
      assume h: "i < j \<and> j < length (b # bs) \<and> nombre ((b # bs) ! i) \<noteq> LIBRE_BLOCK_NAME"
      then obtain j' where j: "j = Suc j'" by (cases j) auto
      show "nombre ((b # bs) ! i) \<noteq> nombre ((b # bs) ! j)"
      proof (cases i)
        case 0
        then show ?thesis using a h j by (auto simp: step)
      next
        case (Suc i')
        then show ?thesis using a h j Cons.IH by (auto simp: step)
      qed
    qed
  next
    assume a: "\<forall>i j. i < j \<and> j < length (b # bs) \<and> nombre ((b # bs) ! i) \<noteq> LIBRE_BLOCK_NAME \<longrightarrow>
      nombre ((b # bs) ! i) \<noteq> nombre ((b # bs) ! j)"
    have 1: "nombre b \<noteq> LIBRE_BLOCK_NAME \<longrightarrow> nombre b \<notin> nombre ` set bs"
    proof (intro impI notI)
      assume n: "nombre b \<noteq> LIBRE_BLOCK_NAME" and "nombre b \<in> nombre ` set bs"
      then obtain k where "k < length bs" "nombre (bs ! k) = nombre b"
        by (auto simp: in_set_conv_nth)
      then show False using a [rule_format, of 0 "Suc k"] n by simp
    qed
    have "\<forall>i j. i < j \<and> j < length bs \<and> nombre (bs ! i) \<noteq> LIBRE_BLOCK_NAME \<longrightarrow>
      nombre (bs ! i) \<noteq> nombre (bs ! j)"
    proof (intro allI impI)
      fix i j assume "i < j \<and> j < length bs \<and> nombre (bs ! i) \<noteq> LIBRE_BLOCK_NAME"
      then show "nombre (bs ! i) \<noteq> nombre (bs ! j)"
        using a [rule_format, of "Suc i" "Suc j"] by simp
    qed
    then have "inv4 bs" using Cons.IH by simp
    then show "inv4 (b # bs)" using 1 by (simp add: step)
  qed
qed

section \<open>The claims of the specification\<close>

subsection \<open>C1: the invariants along every run\<close>

text \<open>
  Claim C1, as amended. After every sequence of calls of \<open>cargarProceso\<close>,
  \<open>liberarProceso\<close> and \<open>compactarMemoriaFisica\<close> on a freshly constructed object, the
  block list satisfies the invariants 1, 2, 3 and 5: increasing offsets without gap or
  overlap, from 0 to the capacity, no two adjacent free blocks, positive lengths.
  Invariant 4 (no process name on two blocks) holds as well when no \<open>cargarProceso\<close> of
  the sequence is called with a name that labels a block at that moment.
\<close>

theorem C1_invariantes:
  "inv1235 (ejecutar ops (Memoria_new sz)) \<and>
   (sin_repetir ops (Memoria_new sz) \<longrightarrow> inv4 (bloques (ejecutar ops (Memoria_new sz))))"
  using alcanzable_bien_formada [of ops sz] ejecutar_inv4 [of "Memoria_new sz" ops]
  by (simp add: bien_formada_inv1235 Memoria_new_inv4)

theorem C1_invariantes_witness:
  "inv1235 (ejecutar [Cargar ''A'' 10, Cargar ''B'' 20, Liberar ''A'', Compactar] (Memoria_new 64)) \<and>
   sin_repetir [Cargar ''A'' 10, Cargar ''B'' 20, Liberar ''A'', Compactar] (Memoria_new 64) \<and>
   inv4 (bloques (ejecutar [Cargar ''A'' 10, Cargar ''B'' 20, Liberar ''A'', Compactar]
     (Memoria_new 64)))"
proof -
  have h: "sin_repetir [Cargar ''A'' 10, Cargar ''B'' 20, Liberar ''A'', Compactar] (Memoria_new 64)"
    by code_simp
  show ?thesis
    using h C1_invariantes [of "[Cargar ''A'' 10, Cargar ''B'' 20, Liberar ''A'', Compactar]" 64]
    by blast
qed

text \<open>
  The claim as stated fails on invariant 4: \<open>cargarProceso\<close> does not look for the name
  among the blocks, so two calls with the same name leave two blocks that carry it.
\<close>

theorem C1_counterexample:
  "\<not> inv4 (bloques (ejecutar [Cargar ''A'' 1, Cargar ''A'' 1] (Memoria_new 64)))"
  by code_simp

subsection \<open>C2: first fit\<close>

text \<open>
  Claim C2. With a positive length and a name other than \<open>Libre\<close>, \<open>cargarProceso\<close>
  takes the first block of the list that is free and at least as long as the request
  (\<open>b\<close>, with no such block in \<open>pre\<close> before it; under invariant 1 every block of \<open>pre\<close>
  has a lower offset than \<open>b\<close>). When the lengths are equal the block only changes its
  name. Otherwise a new block with the requested name and length is put at the offset of
  \<open>b\<close>, immediately before what is left of \<open>b\<close>, whose offset grows and whose length
  shrinks by the requested length. The blocks before and after stay as they were.
\<close>

theorem C2_first_fit:
  assumes "0 < tam" "nom \<noteq> LIBRE_BLOCK_NAME"
    and "bloques m = pre @ b # post"
    and "\<forall>x\<in>set pre. \<not> (nombre x = LIBRE_BLOCK_NAME \<and> tam \<le> tamano x)"
    and "nombre b = LIBRE_BLOCK_NAME" "tam \<le> tamano b"
  shows "cargarProceso nom tam m =
    (Loaded, m\<lparr>bloques :=
       (if tamano b = tam then pre @ b\<lparr>nombre := nom\<rparr> # post
        else pre @ \<lparr>nombre = nom, inicio = inicio b, tamano = tam\<rparr> #
               b\<lparr>inicio := inicio b + tam, tamano := tamano b - tam\<rparr> # post)\<rparr>) \<and>
    (inv1 (bloques m) \<longrightarrow> (\<forall>x\<in>set pre. inicio x < inicio b))"
  using cargar_split [OF assms] inv1_antes [of pre b post] assms(3) by simp

theorem C2_first_fit_witness:
  "cargarProceso ''C'' 7
     \<lparr>bloques = [\<lparr>nombre = ''Libre'', inicio = 0, tamano = 5\<rparr>,
                 \<lparr>nombre = ''B'', inicio = 5, tamano = 20\<rparr>,
                 \<lparr>nombre = ''Libre'', inicio = 25, tamano = 10\<rparr>,
                 \<lparr>nombre = ''D'', inicio = 35, tamano = 4\<rparr>,
                 \<lparr>nombre = ''Libre'', inicio = 39, tamano = 25\<rparr>],
      total_memoria = 64\<rparr> =
   (Loaded,
    \<lparr>bloques = [\<lparr>nombre = ''Libre'', inicio = 0, tamano = 5\<rparr>,
                 \<lparr>nombre = ''B'', inicio = 5, tamano = 20\<rparr>,
                 \<lparr>nombre = ''C'', inicio = 25, tamano = 7\<rparr>,
                 \<lparr>nombre = ''Libre'', inicio = 32, tamano = 3\<rparr>,
                 \<lparr>nombre = ''D'', inicio = 35, tamano = 4\<rparr>,
                 \<lparr>nombre = ''Libre'', inicio = 39, tamano = 25\<rparr>],
      total_memoria = 64\<rparr>) \<and>
   cargarProceso ''C'' 10
     \<lparr>bloques = [\<lparr>nombre = ''Libre'', inicio = 0, tamano = 5\<rparr>,
                 \<lparr>nombre = ''B'', inicio = 5, tamano = 20\<rparr>,
                 \<lparr>nombre = ''Libre'', inicio = 25, tamano = 10\<rparr>,
                 \<lparr>nombre = ''D'', inicio = 35, tamano = 4\<rparr>,
                 \<lparr>nombre = ''Libre'', inicio = 39, tamano = 25\<rparr>],
      total_memoria = 64\<rparr> =
   (Loaded,
    \<lparr>bloques = [\<lparr>nombre = ''Libre'', inicio = 0, tamano = 5\<rparr>,
                 \<lparr>nombre = ''B'', inicio = 5, tamano = 20\<rparr>,
                 \<lparr>nombre = ''C'', inicio = 25, tamano = 10\<rparr>,
                 \<lparr>nombre = ''D'', inicio = 35, tamano = 4\<rparr>,
                 \<lparr>nombre = ''Libre'', inicio = 39, tamano = 25\<rparr>],
      total_memoria = 64\<rparr>)"
proof -
  let ?pre = "[\<lparr>nombre = ''Libre'', inicio = 0, tamano = 5\<rparr>,
               \<lparr>nombre = ''B'', inicio = 5, tamano = 20\<rparr>]"
  let ?b = "\<lparr>nombre = ''Libre'', inicio = 25, tamano = 10\<rparr>"
  let ?post = "[\<lparr>nombre = ''D'', inicio = 35, tamano = 4\<rparr>,
                \<lparr>nombre = ''Libre'', inicio = 39, tamano = 25\<rparr>]"
  let ?m = "\<lparr>bloques = ?pre @ ?b # ?post, total_memoria = 64\<rparr>"
  have 1: "cargarProceso ''C'' 7 ?m =
      (Loaded, ?m\<lparr>bloques := ?pre @ \<lparr>nombre = ''C'', inicio = 25, tamano = 7\<rparr> #
         \<lparr>nombre = ''Libre'', inicio = 32, tamano = 3\<rparr> # ?post\<rparr>)"
    using C2_first_fit [of 7 "''C''" ?m ?pre ?b ?post]
    by (simp add: LIBRE_BLOCK_NAME_def)
  have 2: "cargarProceso ''C'' 10 ?m =
      (Loaded, ?m\<lparr>bloques := ?pre @ \<lparr>nombre = ''C'', inicio = 25, tamano = 10\<rparr> # ?post\<rparr>)"
    using C2_first_fit [of 10 "''C''" ?m ?pre ?b ?post]
    by (simp add: LIBRE_BLOCK_NAME_def)
  from 1 2 show ?thesis by simp
qed

subsection \<open>C3: the errors of cargarProceso\<close>

text \<open>
  Claim C3. \<open>cargarProceso\<close> makes its checks in the order of the source: a length
  \<open>tam \<le> 0\<close> is reported as \<open>InvalidSize\<close>; otherwise the name \<open>Libre\<close> is reported as
  \<open>ReservedName\<close>; otherwise, when no free block has length at least \<open>tam\<close>, the call
  reports \<open>InsufficientSpace\<close>. In each case, and whenever the call does not report
  \<open>Loaded\<close>, the object (block list and total) is returned as it was.
\<close>

theorem C3_cargar_errores:
  "(tam \<le> 0 \<longrightarrow> cargarProceso nom tam m = (InvalidSize, m)) \<and>
   (nom = LIBRE_BLOCK_NAME \<longrightarrow>
      cargarProceso nom tam m = (if tam \<le> 0 then InvalidSize else ReservedName, m)) \<and>
   ((\<forall>b\<in>set (bloques m). \<not> (nombre b = LIBRE_BLOCK_NAME \<and> tam \<le> tamano b)) \<longrightarrow>
      cargarProceso nom tam m =
        (if tam \<le> 0 then InvalidSize
         else if nom = LIBRE_BLOCK_NAME then ReservedName
         else InsufficientSpace, m)) \<and>
   (fst (cargarProceso nom tam m) \<noteq> Loaded \<longrightarrow> snd (cargarProceso nom tam m) = m)"
proof -
  have "find_if (\<lambda>b. nombre b = LIBRE_BLOCK_NAME \<and> tam \<le> tamano b) (bloques m) =
        length (bloques m)"
    if "\<forall>b\<in>set (bloques m). \<not> (nombre b = LIBRE_BLOCK_NAME \<and> tam \<le> tamano b)"
    using that by (simp add: find_if_end)
  moreover have "fst (cargarProceso nom tam m) \<noteq> Loaded \<longrightarrow> snd (cargarProceso nom tam m) = m"
    using cargar_error [of nom tam m] by (cases "cargarProceso nom tam m") auto
  ultimately show ?thesis by (auto simp: cargarProceso_def Let_def)
qed

theorem C3_cargar_errores_witness:
  "cargarProceso ''A'' 0 (Memoria_new 10) = (InvalidSize, Memoria_new 10) \<and>
   cargarProceso ''Libre'' 3 (Memoria_new 10) = (ReservedName, Memoria_new 10) \<and>
   cargarProceso ''Libre'' 0 (Memoria_new 10) = (InvalidSize, Memoria_new 10) \<and>
   cargarProceso ''A'' 11 (Memoria_new 10) = (InsufficientSpace, Memoria_new 10)"
proof -
  have 1: "cargarProceso ''A'' 0 (Memoria_new 10) = (InvalidSize, Memoria_new 10)"
    using C3_cargar_errores [of 0 "''A''" "Memoria_new 10"] by simp
  have 2: "cargarProceso ''Libre'' 3 (Memoria_new 10) = (ReservedName, Memoria_new 10)"
    using C3_cargar_errores [of 3 "''Libre''" "Memoria_new 10"]
    by (simp add: LIBRE_BLOCK_NAME_def)
  have 3: "cargarProceso ''Libre'' 0 (Memoria_new 10) = (InvalidSize, Memoria_new 10)"
    using C3_cargar_errores [of 0 "''Libre''" "Memoria_new 10"]
    by (simp add: LIBRE_BLOCK_NAME_def)
  have 4: "cargarProceso ''A'' 11 (Memoria_new 10) = (InsufficientSpace, Memoria_new 10)"
    using C3_cargar_errores [of 11 "''A''" "Memoria_new 10"]
    by (simp add: LIBRE_BLOCK_NAME_def Memoria_new_def)
  from 1 2 3 4 show ?thesis by simp
qed

subsection \<open>C4: liberarProceso\<close>

text \<open>
  Claim C4. \<open>liberarProceso\<close> reports \<open>ReservedName\<close> for the name \<open>Libre\<close> and
  \<open>NotFound\<close> for any other name that labels no block, and returns the object as it was
  in both cases. When a block carries the name, the first such block (\<open>b\<close>, with none in
  \<open>pre\<close> before it) gets the name \<open>Libre\<close>, \<open>compactarEspaciosLibresAdyacentes\<close> runs on
  the result, and the block list returned has no two adjacent free blocks.
\<close>

theorem C4_liberar:
  "(nom = LIBRE_BLOCK_NAME \<longrightarrow> liberarProceso nom m = (ReservedName, m)) \<and>
   (nom \<notin> set (map nombre (bloques m)) \<longrightarrow>
      liberarProceso nom m = (if nom = LIBRE_BLOCK_NAME then ReservedName else NotFound, m)) \<and>
   (nom \<noteq> LIBRE_BLOCK_NAME \<and> nom \<in> set (map nombre (bloques m)) \<longrightarrow>
      fst (liberarProceso nom m) = Released \<and> inv3 (bloques (snd (liberarProceso nom m)))) \<and>
   (nom \<noteq> LIBRE_BLOCK_NAME \<and> bloques m = pre @ b # post \<and>
    (\<forall>x\<in>set pre. nombre x \<noteq> nom) \<and> nombre b = nom \<longrightarrow>
      liberarProceso nom m =
        (Released,
         compactarEspaciosLibresAdyacentes
           (m\<lparr>bloques := pre @ b\<lparr>nombre := LIBRE_BLOCK_NAME\<rparr> # post\<rparr>)))"
proof -
  have 1: "nom = LIBRE_BLOCK_NAME \<longrightarrow> liberarProceso nom m = (ReservedName, m)"
    by (simp add: liberarProceso_def)
  have "find_if (\<lambda>b. nombre b = nom) (bloques m) = length (bloques m)"
    if "nom \<notin> set (map nombre (bloques m))"
    using that by (auto simp: find_if_end)
  then have 2: "nom \<notin> set (map nombre (bloques m)) \<longrightarrow>
      liberarProceso nom m = (if nom = LIBRE_BLOCK_NAME then ReservedName else NotFound, m)"
    by (simp add: liberarProceso_def Let_def)
  have 3: "nom \<noteq> LIBRE_BLOCK_NAME \<and> nom \<in> set (map nombre (bloques m)) \<longrightarrow>
      fst (liberarProceso nom m) = Released \<and> inv3 (bloques (snd (liberarProceso nom m)))"
    using liberar_encontrado [of nom m] liberar_inv3 [of nom m] by blast
  have 4: "nom \<noteq> LIBRE_BLOCK_NAME \<and> bloques m = pre @ b # post \<and>
    (\<forall>x\<in>set pre. nombre x \<noteq> nom) \<and> nombre b = nom \<longrightarrow>
      liberarProceso nom m =
        (Released,
         compactarEspaciosLibresAdyacentes
           (m\<lparr>bloques := pre @ b\<lparr>nombre := LIBRE_BLOCK_NAME\<rparr> # post\<rparr>))"
    using liberar_split [of nom m pre b post] by blast
  from 1 2 3 4 show ?thesis by blast
qed

theorem C4_liberar_witness:
  "liberarProceso ''Libre'' (ejecutar [Cargar ''A'' 10, Cargar ''B'' 20, Cargar ''C'' 5] (Memoria_new 64)) =
     (ReservedName, ejecutar [Cargar ''A'' 10, Cargar ''B'' 20, Cargar ''C'' 5] (Memoria_new 64)) \<and>
   liberarProceso ''Z'' (ejecutar [Cargar ''A'' 10, Cargar ''B'' 20, Cargar ''C'' 5] (Memoria_new 64)) =
     (NotFound, ejecutar [Cargar ''A'' 10, Cargar ''B'' 20, Cargar ''C'' 5] (Memoria_new 64)) \<and>
   fst (liberarProceso ''B''
     (ejecutar [Cargar ''A'' 10, Cargar ''B'' 20, Cargar ''C'' 5, Liberar ''A''] (Memoria_new 64))) = Released \<and>
   inv3 (bloques (snd (liberarProceso ''B''
     (ejecutar [Cargar ''A'' 10, Cargar ''B'' 20, Cargar ''C'' 5, Liberar ''A''] (Memoria_new 64))))) \<and>
   bloques (snd (liberarProceso ''B''
     (ejecutar [Cargar ''A'' 10, Cargar ''B'' 20, Cargar ''C'' 5, Liberar ''A''] (Memoria_new 64)))) =
     [\<lparr>nombre = ''Libre'', inicio = 0, tamano = 30\<rparr>, \<lparr>nombre = ''C'', inicio = 30, tamano = 5\<rparr>,
      \<lparr>nombre = ''Libre'', inicio = 35, tamano = 29\<rparr>]"
proof -
  let ?m = "ejecutar [Cargar ''A'' 10, Cargar ''B'' 20, Cargar ''C'' 5] (Memoria_new 64)"
  let ?m2 = "ejecutar [Cargar ''A'' 10, Cargar ''B'' 20, Cargar ''C'' 5, Liberar ''A''] (Memoria_new 64)"
  let ?pre = "[\<lparr>nombre = ''Libre'', inicio = 0, tamano = 10\<rparr>]"
  let ?b = "\<lparr>nombre = ''B'', inicio = 10, tamano = 20\<rparr>"
  let ?post = "[\<lparr>nombre = ''C'', inicio = 30, tamano = 5\<rparr>, \<lparr>nombre = ''Libre'', inicio = 35, tamano = 29\<rparr>]"
  have z: "''Z'' \<notin> set (map nombre (bloques ?m))" by code_simp
  have b2: "bloques ?m2 = ?pre @ ?b # ?post" by code_simp
  have bn: "''B'' \<in> set (map nombre (bloques ?m2))" by code_simp
  have 1: "liberarProceso ''Libre'' ?m = (ReservedName, ?m)"
    using C4_liberar [of "''Libre''" ?m] by (simp add: LIBRE_BLOCK_NAME_def)
  have 2: "liberarProceso ''Z'' ?m = (NotFound, ?m)"
    using C4_liberar [of "''Z''" ?m] z by (simp add: LIBRE_BLOCK_NAME_def)
  have 3: "fst (liberarProceso ''B'' ?m2) = Released \<and> inv3 (bloques (snd (liberarProceso ''B'' ?m2)))"
    using C4_liberar [of "''B''" ?m2] bn by (simp add: LIBRE_BLOCK_NAME_def)
  have "liberarProceso ''B'' ?m2 =
        (Released,
         compactarEspaciosLibresAdyacentes
           (?m2\<lparr>bloques := ?pre @ ?b\<lparr>nombre := LIBRE_BLOCK_NAME\<rparr> # ?post\<rparr>))"
    using C4_liberar [of "''B''" ?m2 ?pre ?b ?post] b2 by (simp add: LIBRE_BLOCK_NAME_def)
  then have 4: "bloques (snd (liberarProceso ''B'' ?m2)) =
     [\<lparr>nombre = ''Libre'', inicio = 0, tamano = 30\<rparr>, \<lparr>nombre = ''C'', inicio = 30, tamano = 5\<rparr>,
      \<lparr>nombre = ''Libre'', inicio = 35, tamano = 29\<rparr>]"
    by (simp add: compactarEspacios_bloques fusionar_Cons LIBRE_BLOCK_NAME_def)
  from 1 2 3 4 show ?thesis by simp
qed

subsection \<open>C5: the result of compactarMemoriaFisica\<close>

text \<open>
  Claim C5. On an object of positive capacity, \<open>compactarMemoriaFisica\<close> returns the
  occupied blocks of the old list, with their names and lengths and in their old order,
  placed one after the other from offset 0, followed by exactly one free block from the
  end of the last occupied block to the capacity when that end is below the capacity,
  and by nothing otherwise. With no occupied block the result is the single free block
  of the whole capacity. At most one block of the result is free, and every block before
  the last one is occupied.
\<close>

theorem C5_compactar:
  assumes "0 < total_memoria m"
  shows "bloques (compactarMemoriaFisica m) =
           filter ocupado (bloques (compactarMemoriaFisica m)) @
           (if suma (filter ocupado (bloques m)) < total_memoria m
            then [\<lparr>nombre = LIBRE_BLOCK_NAME, inicio = suma (filter ocupado (bloques m)),
                   tamano = total_memoria m - suma (filter ocupado (bloques m))\<rparr>]
            else []) \<and>
         cadena 0 (filter ocupado (bloques (compactarMemoriaFisica m))) \<and>
         map (\<lambda>b. (nombre b, tamano b)) (filter ocupado (bloques (compactarMemoriaFisica m))) =
           map (\<lambda>b. (nombre b, tamano b)) (filter ocupado (bloques m)) \<and>
         (filter ocupado (bloques m) = [] \<longrightarrow>
            bloques (compactarMemoriaFisica m) =
              [\<lparr>nombre = LIBRE_BLOCK_NAME, inicio = 0, tamano = total_memoria m\<rparr>]) \<and>
         length (filter (\<lambda>b. nombre b = LIBRE_BLOCK_NAME) (bloques (compactarMemoriaFisica m))) \<le> 1 \<and>
         list_all ocupado (butlast (bloques (compactarMemoriaFisica m)))"
proof -
  have 1: "bloques (compactarMemoriaFisica m) =
           filter ocupado (bloques (compactarMemoriaFisica m)) @
           (if suma (filter ocupado (bloques m)) < total_memoria m
            then [\<lparr>nombre = LIBRE_BLOCK_NAME, inicio = suma (filter ocupado (bloques m)),
                   tamano = total_memoria m - suma (filter ocupado (bloques m))\<rparr>]
            else [])"
    using compactar_forma_positiva [OF assms] compactar_ocupados [of m] by simp
  have 2: "cadena 0 (filter ocupado (bloques (compactarMemoriaFisica m)))"
    by (simp add: compactar_ocupados cadena_colocados)
  have 3: "map (\<lambda>b. (nombre b, tamano b)) (filter ocupado (bloques (compactarMemoriaFisica m))) =
           map (\<lambda>b. (nombre b, tamano b)) (filter ocupado (bloques m))"
    by (simp add: compactar_ocupados pares_colocados)
  have 4: "filter ocupado (bloques m) = [] \<longrightarrow>
            bloques (compactarMemoriaFisica m) =
              [\<lparr>nombre = LIBRE_BLOCK_NAME, inicio = 0, tamano = total_memoria m\<rparr>]"
    using assms by (simp add: compactar_forma_positiva colocados_vacio suma_def)
  have 5: "length (filter (\<lambda>b. nombre b = LIBRE_BLOCK_NAME) (bloques (compactarMemoriaFisica m))) \<le> 1"
    using libres_tras_compactar [of "\<lambda>_. True" m] by simp
  show ?thesis using 1 2 3 4 5 butlast_tras_compactar [of m] by blast
qed

theorem C5_compactar_witness:
  "bloques (compactarMemoriaFisica
     (ejecutar [Cargar ''A'' 10, Cargar ''B'' 20, Cargar ''C'' 5, Liberar ''B''] (Memoria_new 64))) =
   [\<lparr>nombre = ''A'', inicio = 0, tamano = 10\<rparr>, \<lparr>nombre = ''C'', inicio = 10, tamano = 5\<rparr>,
    \<lparr>nombre = ''Libre'', inicio = 15, tamano = 49\<rparr>] \<and>
   bloques (compactarMemoriaFisica (ejecutar [Cargar ''A'' 10, Liberar ''A''] (Memoria_new 64))) =
   [\<lparr>nombre = ''Libre'', inicio = 0, tamano = 64\<rparr>]"
proof -
  let ?m = "ejecutar [Cargar ''A'' 10, Cargar ''B'' 20, Cargar ''C'' 5, Liberar ''B''] (Memoria_new 64)"
  let ?e = "ejecutar [Cargar ''A'' 10, Liberar ''A''] (Memoria_new 64)"
  have t: "0 < total_memoria ?m" by code_simp
  have oc: "filter ocupado (bloques (compactarMemoriaFisica ?m)) =
      [\<lparr>nombre = ''A'', inicio = 0, tamano = 10\<rparr>, \<lparr>nombre = ''C'', inicio = 10, tamano = 5\<rparr>]"
    by code_simp
  have s: "suma (filter ocupado (bloques ?m)) = 15" by code_simp
  have tm: "total_memoria ?m = 64" by code_simp
  have "bloques (compactarMemoriaFisica ?m) =
           filter ocupado (bloques (compactarMemoriaFisica ?m)) @
           (if suma (filter ocupado (bloques ?m)) < total_memoria ?m
            then [\<lparr>nombre = LIBRE_BLOCK_NAME, inicio = suma (filter ocupado (bloques ?m)),
                   tamano = total_memoria ?m - suma (filter ocupado (bloques ?m))\<rparr>]
            else [])"
    using C5_compactar [OF t] by blast
  then have 1: "bloques (compactarMemoriaFisica ?m) =
     [\<lparr>nombre = ''A'', inicio = 0, tamano = 10\<rparr>, \<lparr>nombre = ''C'', inicio = 10, tamano = 5\<rparr>,
      \<lparr>nombre = ''Libre'', inicio = 15, tamano = 49\<rparr>]"
    unfolding oc s tm by (simp add: LIBRE_BLOCK_NAME_def)
  have te: "0 < total_memoria ?e" by code_simp
  have ve: "filter ocupado (bloques ?e) = []" by code_simp
  have tme: "total_memoria ?e = 64" by code_simp
  have "bloques (compactarMemoriaFisica ?e) =
      [\<lparr>nombre = LIBRE_BLOCK_NAME, inicio = 0, tamano = total_memoria ?e\<rparr>]"
    using C5_compactar [OF te] ve by blast
  then have 2: "bloques (compactarMemoriaFisica ?e) = [\<lparr>nombre = ''Libre'', inicio = 0, tamano = 64\<rparr>]"
    unfolding tme by (simp add: LIBRE_BLOCK_NAME_def)
  from 1 2 show ?thesis by blast
qed

subsection \<open>C6: compacting twice\<close>

text \<open>
  Claim C6. \<open>compactarMemoriaFisica\<close> is idempotent: a second call right after the first
  returns the same object, block for block. Each call keeps the names of the occupied
  blocks in their order. Both hold for every object, so in particular for every state
  reached from the constructor.
\<close>

theorem C6_compactar_idempotente:
  "compactarMemoriaFisica (compactarMemoriaFisica m) = compactarMemoriaFisica m \<and>
   map nombre (filter ocupado (bloques (compactarMemoriaFisica m))) =
     map nombre (filter ocupado (bloques m))"
  by (simp add: compactar_idem compactar_ocupados nombres_colocados)

theorem C6_compactar_idempotente_witness:
  "compactarMemoriaFisica (compactarMemoriaFisica
     (ejecutar [Cargar ''A'' 10, Cargar ''B'' 20, Cargar ''C'' 5, Liberar ''B''] (Memoria_new 64))) =
   \<lparr>bloques = [\<lparr>nombre = ''A'', inicio = 0, tamano = 10\<rparr>, \<lparr>nombre = ''C'', inicio = 10, tamano = 5\<rparr>,
                \<lparr>nombre = ''Libre'', inicio = 15, tamano = 49\<rparr>], total_memoria = 64\<rparr> \<and>
   map nombre (filter ocupado (bloques (compactarMemoriaFisica
     (ejecutar [Cargar ''A'' 10, Cargar ''B'' 20, Cargar ''C'' 5, Liberar ''B''] (Memoria_new 64))))) =
   [''A'', ''C'']"
proof -
  let ?m = "ejecutar [Cargar ''A'' 10, Cargar ''B'' 20, Cargar ''C'' 5, Liberar ''B''] (Memoria_new 64)"
  have 1: "compactarMemoriaFisica ?m =
     \<lparr>bloques = [\<lparr>nombre = ''A'', inicio = 0, tamano = 10\<rparr>, \<lparr>nombre = ''C'', inicio = 10, tamano = 5\<rparr>,
                \<lparr>nombre = ''Libre'', inicio = 15, tamano = 49\<rparr>], total_memoria = 64\<rparr>"
    by code_simp
  have 2: "map nombre (filter ocupado (bloques ?m)) = [''A'', ''C'']" by code_simp
  from C6_compactar_idempotente [of ?m] show ?thesis unfolding 1 2 by simp
qed

subsection \<open>C7: a load followed by the release of the same name\<close>

text \<open>
  Claim C7, as amended. In every state reached from the constructor, when
  \<open>cargarProceso\<close> succeeds for a name that labels no block of that state, an immediate
  \<open>liberarProceso\<close> of the same name succeeds and gives back the state as it was before
  the load; so the total free space and the number of free blocks that
  \<open>calcularFragmentacionExterna\<close> reports are those of before.
\<close>

theorem C7_cargar_liberar:
  assumes "m = ejecutar ops (Memoria_new sz)"
    and "nom \<notin> set (map nombre (bloques m))"
    and "fst (cargarProceso nom tam m) = Loaded"
  shows "fst (liberarProceso nom (snd (cargarProceso nom tam m))) = Released \<and>
         calcularFragmentacionExterna (snd (liberarProceso nom (snd (cargarProceso nom tam m)))) =
           calcularFragmentacionExterna m \<and>
         snd (liberarProceso nom (snd (cargarProceso nom tam m))) = m"
proof -
  have "bien_formada m" unfolding assms(1) by (rule alcanzable_bien_formada)
  then have "inv3 (bloques m)" by (simp add: bien_formada_def)
  then have "liberarProceso nom (snd (cargarProceso nom tam m)) = (Released, m)"
    using assms(2,3) by (rule cargar_liberar)
  then show ?thesis by simp
qed

theorem C7_cargar_liberar_witness:
  "fst (liberarProceso ''C'' (snd (cargarProceso ''C'' 7
     (ejecutar [Cargar ''A'' 10, Cargar ''B'' 20, Liberar ''A''] (Memoria_new 64))))) = Released \<and>
   calcularFragmentacionExterna (snd (liberarProceso ''C'' (snd (cargarProceso ''C'' 7
     (ejecutar [Cargar ''A'' 10, Cargar ''B'' 20, Liberar ''A''] (Memoria_new 64)))))) = (44, 2) \<and>
   calcularFragmentacionExterna (snd (cargarProceso ''C'' 7
     (ejecutar [Cargar ''A'' 10, Cargar ''B'' 20, Liberar ''A''] (Memoria_new 64)))) = (37, 2)"
proof -
  let ?m = "ejecutar [Cargar ''A'' 10, Cargar ''B'' 20, Liberar ''A''] (Memoria_new 64)"
  have n: "''C'' \<notin> set (map nombre (bloques ?m))" by code_simp
  have l: "fst (cargarProceso ''C'' 7 ?m) = Loaded" by code_simp
  have a: "calcularFragmentacionExterna ?m = (44, 2)" by code_simp
  have d: "calcularFragmentacionExterna (snd (cargarProceso ''C'' 7 ?m)) = (37, 2)" by code_simp
  have r: "fst (liberarProceso ''C'' (snd (cargarProceso ''C'' 7 ?m))) = Released"
    using C7_cargar_liberar [OF refl n l] by blast
  have "calcularFragmentacionExterna (snd (liberarProceso ''C'' (snd (cargarProceso ''C'' 7 ?m)))) =
      calcularFragmentacionExterna ?m"
    using C7_cargar_liberar [OF refl n l] by blast
  then have e: "calcularFragmentacionExterna
      (snd (liberarProceso ''C'' (snd (cargarProceso ''C'' 7 ?m)))) = (44, 2)"
    unfolding a .
  from r e d show ?thesis by blast
qed

text \<open>
  The claim as stated fails when the name already labels a block at a lower offset:
  \<open>liberarProceso\<close> then frees that older block, not the one just loaded. With A of 10
  loaded in a memory of 64, loading A of 5 and releasing A goes from 54 free units in
  one block to 59 in two.
\<close>

theorem C7_counterexample:
  "fst (cargarProceso ''A'' 5 (ejecutar [Cargar ''A'' 10] (Memoria_new 64))) = Loaded \<and>
   calcularFragmentacionExterna (ejecutar [Cargar ''A'' 10] (Memoria_new 64)) = (54, 1) \<and>
   fst (liberarProceso ''A''
     (snd (cargarProceso ''A'' 5 (ejecutar [Cargar ''A'' 10] (Memoria_new 64))))) = Released \<and>
   calcularFragmentacionExterna (snd (liberarProceso ''A''
     (snd (cargarProceso ''A'' 5 (ejecutar [Cargar ''A'' 10] (Memoria_new 64)))))) = (59, 2)"
  by code_simp

subsection \<open>C8: free blocks after a release and after a compaction\<close>

text \<open>
  Claim C8, as amended. Right after \<open>compactarMemoriaFisica\<close> at most one block is free
  and of positive length. Right after a \<open>liberarProceso\<close> that found its block, no two
  adjacent blocks are free; free blocks separated by occupied ones stay apart, so their
  number can exceed 1.
\<close>

theorem C8_bloques_libres:
  "snd (calcularFragmentacionExterna (compactarMemoriaFisica m)) \<le> 1 \<and>
   (fst (liberarProceso nom m) = Released \<longrightarrow> inv3 (bloques (snd (liberarProceso nom m))))"
  using libres_tras_compactar [of "\<lambda>b. 0 < tamano b" m] liberar_inv3 [of nom m]
  by (simp add: calcularFragmentacionExterna_def num_bloques_libres_def)

theorem C8_bloques_libres_witness:
  "snd (calcularFragmentacionExterna (compactarMemoriaFisica
     (ejecutar [Cargar ''A'' 10, Cargar ''B'' 20, Liberar ''A''] (Memoria_new 64)))) \<le> 1 \<and>
   fst (liberarProceso ''A'' (ejecutar [Cargar ''A'' 10, Cargar ''B'' 20] (Memoria_new 64))) = Released \<and>
   inv3 (bloques (snd (liberarProceso ''A''
     (ejecutar [Cargar ''A'' 10, Cargar ''B'' 20] (Memoria_new 64)))))"
proof -
  have h: "fst (liberarProceso ''A'' (ejecutar [Cargar ''A'' 10, Cargar ''B'' 20] (Memoria_new 64))) =
      Released"
    by code_simp
  show ?thesis
    using h
      C8_bloques_libres [where m = "ejecutar [Cargar ''A'' 10, Cargar ''B'' 20, Liberar ''A''] (Memoria_new 64)"]
      C8_bloques_libres [where nom = "''A''"
        and m = "ejecutar [Cargar ''A'' 10, Cargar ''B'' 20] (Memoria_new 64)"]
    by blast
qed

text \<open>
  The claim as stated fails for \<open>liberarProceso\<close>: the example of the specification
  itself (capacity 64, A of 10 and B of 20 loaded, A released) leaves the two free blocks
  \<open>[0, 10)\<close> and \<open>[30, 64)\<close>, which B keeps apart.
\<close>

theorem C8_counterexample:
  "fst (liberarProceso ''A'' (ejecutar [Cargar ''A'' 10, Cargar ''B'' 20] (Memoria_new 64))) = Released \<and>
   snd (calcularFragmentacionExterna (snd (liberarProceso ''A''
     (ejecutar [Cargar ''A'' 10, Cargar ''B'' 20] (Memoria_new 64))))) = 2"
  by code_simp

subsection \<open>C9: what compactarMemoriaFisica keeps\<close>

text \<open>
  Claim C9. In every state reached from the constructor, \<open>compactarMemoriaFisica\<close>
  leaves the total free space (the first number of \<open>calcularFragmentacionExterna\<close>) as
  it was, and the occupied blocks keep their names and lengths in the same order.
\<close>

theorem C9_compactar_conserva:
  "fst (calcularFragmentacionExterna (compactarMemoriaFisica (ejecutar ops (Memoria_new sz)))) =
     fst (calcularFragmentacionExterna (ejecutar ops (Memoria_new sz))) \<and>
   map (\<lambda>b. (nombre b, tamano b))
     (filter ocupado (bloques (compactarMemoriaFisica (ejecutar ops (Memoria_new sz))))) =
   map (\<lambda>b. (nombre b, tamano b)) (filter ocupado (bloques (ejecutar ops (Memoria_new sz))))"
  using frag_externa_compactar [OF alcanzable_bien_formada [of ops sz]]
  by (simp add: calcularFragmentacionExterna_def compactar_ocupados pares_colocados)

theorem C9_compactar_conserva_witness:
  "fst (calcularFragmentacionExterna (compactarMemoriaFisica
     (ejecutar [Cargar ''A'' 10, Cargar ''B'' 20, Cargar ''C'' 5, Liberar ''B''] (Memoria_new 64)))) = 49 \<and>
   map (\<lambda>b. (nombre b, tamano b)) (filter ocupado (bloques (compactarMemoriaFisica
     (ejecutar [Cargar ''A'' 10, Cargar ''B'' 20, Cargar ''C'' 5, Liberar ''B''] (Memoria_new 64))))) =
   [(''A'', 10), (''C'', 5)]"
proof -
  let ?ops = "[Cargar ''A'' 10, Cargar ''B'' 20, Cargar ''C'' 5, Liberar ''B'']"
  have 1: "fst (calcularFragmentacionExterna (ejecutar ?ops (Memoria_new 64))) = 49"
    by code_simp
  have 2: "map (\<lambda>b. (nombre b, tamano b)) (filter ocupado (bloques (ejecutar ?ops (Memoria_new 64)))) =
     [(''A'', 10), (''C'', 5)]"
    by code_simp
  from C9_compactar_conserva [of ?ops 64] show ?thesis unfolding 1 2 by simp
qed

subsection \<open>C10: loading a name that is already in use\<close>

text \<open>
  Claim C10. \<open>cargarProceso\<close> does not look whether the name is already in use: with a
  positive length, a name other than \<open>Libre\<close> that labels a block, and a free block that
  is long enough, the call succeeds and the list has one more block with that name. A
  \<open>liberarProceso\<close> of the name then frees the first block of the list that carries it
  (\<open>b\<close>; under invariant 1 every later block has a higher offset), and every other
  occupied block, among them at least one with the same name, is in the result as it was.
\<close>

theorem C10_duplicado:
  assumes "0 < tam" "nom \<noteq> LIBRE_BLOCK_NAME"
    and "nom \<in> set (map nombre (bloques m))"
    and "\<exists>x\<in>set (bloques m). nombre x = LIBRE_BLOCK_NAME \<and> tam \<le> tamano x"
  shows "fst (cargarProceso nom tam m) = Loaded \<and>
     length (filter (\<lambda>x. nombre x = nom) (bloques (snd (cargarProceso nom tam m)))) =
       Suc (length (filter (\<lambda>x. nombre x = nom) (bloques m))) \<and>
     (\<exists>pre b post.
        bloques (snd (cargarProceso nom tam m)) = pre @ b # post \<and>
        nombre b = nom \<and> (\<forall>x\<in>set pre. nombre x \<noteq> nom) \<and> (\<exists>x\<in>set post. nombre x = nom) \<and>
        (inv1 (bloques m) \<longrightarrow> (\<forall>x\<in>set post. inicio b < inicio x)) \<and>
        liberarProceso nom (snd (cargarProceso nom tam m)) =
          (Released,
           compactarEspaciosLibresAdyacentes
             ((snd (cargarProceso nom tam m))\<lparr>bloques := pre @ b\<lparr>nombre := LIBRE_BLOCK_NAME\<rparr> # post\<rparr>)) \<and>
        filter ocupado (bloques (snd (liberarProceso nom (snd (cargarProceso nom tam m))))) =
          filter ocupado pre @ filter ocupado post)"
proof -
  let ?m' = "snd (cargarProceso nom tam m)"
  let ?Q = "\<lambda>x. nombre x = nom"
  have ok: "fst (cargarProceso nom tam m) = Loaded"
    using assms(1,2,4) by (rule cargar_cargado)
  have cuenta: "length (filter ?Q (bloques ?m')) = Suc (length (filter ?Q (bloques m)))"
    using ok by (rule cargar_cuenta)
  have "filter ?Q (bloques m) \<noteq> []" using assms(3) by (auto simp: filter_empty_conv)
  then have dos: "2 \<le> length (filter ?Q (bloques ?m'))"
    using cuenta by (cases "filter ?Q (bloques m)") simp_all
  then have "filter ?Q (bloques ?m') \<noteq> []" by auto
  then have "\<exists>x\<in>set (bloques ?m'). ?Q x" by (simp add: filter_empty_conv)
  then have "find_if ?Q (bloques ?m') \<noteq> length (bloques ?m')" by (simp add: find_if_end)
  from find_if_found [OF this] obtain pre b post where
    bs: "bloques ?m' = pre @ b # post" and pre: "\<forall>x\<in>set pre. nombre x \<noteq> nom" and b: "nombre b = nom"
    by blast
  have "filter ?Q pre = []" using pre by (simp add: filter_empty_conv)
  then have "filter ?Q post \<noteq> []" using dos b by (auto simp: bs)
  then have otro: "\<exists>x\<in>set post. nombre x = nom" by (auto simp: filter_empty_conv)
  have orden: "inv1 (bloques m) \<longrightarrow> (\<forall>x\<in>set post. inicio b < inicio x)"
    using cargar_inv1 [of m nom tam] inv1_antes [of pre b post] by (simp add: bs)
  have lib: "liberarProceso nom ?m' =
      (Released,
       compactarEspaciosLibresAdyacentes (?m'\<lparr>bloques := pre @ b\<lparr>nombre := LIBRE_BLOCK_NAME\<rparr> # post\<rparr>))"
    using assms(2) bs pre b by (rule liberar_split)
  have resto: "filter ocupado (bloques (snd (liberarProceso nom ?m'))) =
      filter ocupado pre @ filter ocupado post"
    using assms(2) bs pre b by (rule liberar_ocupados)
  show ?thesis using ok cuenta bs b pre otro orden lib resto by blast
qed

theorem C10_duplicado_witness:
  "fst (cargarProceso ''A'' 5 (ejecutar [Cargar ''A'' 10] (Memoria_new 64))) = Loaded \<and>
   length (filter (\<lambda>x. nombre x = ''A'')
     (bloques (snd (cargarProceso ''A'' 5 (ejecutar [Cargar ''A'' 10] (Memoria_new 64)))))) = 2 \<and>
   bloques (snd (cargarProceso ''A'' 5 (ejecutar [Cargar ''A'' 10] (Memoria_new 64)))) =
     [\<lparr>nombre = ''A'', inicio = 0, tamano = 10\<rparr>, \<lparr>nombre = ''A'', inicio = 10, tamano = 5\<rparr>,
      \<lparr>nombre = ''Libre'', inicio = 15, tamano = 49\<rparr>] \<and>
   bloques (snd (liberarProceso ''A''
     (snd (cargarProceso ''A'' 5 (ejecutar [Cargar ''A'' 10] (Memoria_new 64)))))) =
     [\<lparr>nombre = ''Libre'', inicio = 0, tamano = 10\<rparr>, \<lparr>nombre = ''A'', inicio = 10, tamano = 5\<rparr>,
      \<lparr>nombre = ''Libre'', inicio = 15, tamano = 49\<rparr>]"
proof -
  let ?m = "ejecutar [Cargar ''A'' 10] (Memoria_new 64)"
  have h1: "(0::int) < 5" by simp
  have h2: "''A'' \<noteq> LIBRE_BLOCK_NAME" by (simp add: LIBRE_BLOCK_NAME_def)
  have h3: "''A'' \<in> set (map nombre (bloques ?m))" by code_simp
  have h4: "\<exists>x\<in>set (bloques ?m). nombre x = LIBRE_BLOCK_NAME \<and> 5 \<le> tamano x" by code_simp
  have c: "length (filter (\<lambda>x. nombre x = ''A'') (bloques ?m)) = 1" by code_simp
  have "fst (cargarProceso ''A'' 5 ?m) = Loaded \<and>
     length (filter (\<lambda>x. nombre x = ''A'') (bloques (snd (cargarProceso ''A'' 5 ?m)))) =
       Suc (length (filter (\<lambda>x. nombre x = ''A'') (bloques ?m)))"
    using C10_duplicado [OF h1 h2 h3 h4] by blast
  then have 1: "fst (cargarProceso ''A'' 5 ?m) = Loaded \<and>
     length (filter (\<lambda>x. nombre x = ''A'') (bloques (snd (cargarProceso ''A'' 5 ?m)))) = 2"
    unfolding c by simp
  have 2: "bloques (snd (cargarProceso ''A'' 5 ?m)) =
     [\<lparr>nombre = ''A'', inicio = 0, tamano = 10\<rparr>, \<lparr>nombre = ''A'', inicio = 10, tamano = 5\<rparr>,
      \<lparr>nombre = ''Libre'', inicio = 15, tamano = 49\<rparr>]"
    by code_simp
  have 3: "bloques (snd (liberarProceso ''A'' (snd (cargarProceso ''A'' 5 ?m)))) =
     [\<lparr>nombre = ''Libre'', inicio = 0, tamano = 10\<rparr>, \<lparr>nombre = ''A'', inicio = 10, tamano = 5\<rparr>,
      \<lparr>nombre = ''Libre'', inicio = 15, tamano = 49\<rparr>]"
    by code_simp
  from 1 2 3 show ?thesis by blast
qed

end
